theory Spec2Isabelle
  imports Complex_Main "HOL-Library.Multiset"
begin

section \<open>Transport layer: the dispatch queue (src/src/transport.ts)\<close>

text \<open>
  The queue of \<open>MobileTransport\<close> holds \<open>QueuedItem\<close>s. The \<open>data\<close> field of an item is
  a JavaScript object; \<open>flush\<close> compares such objects with \<open>===\<close>, that is by reference.
  An object is therefore modelled as a pair of its reference (a natural number) and its
  content, of an arbitrary type \<open>'a\<close>.

  The seven strings of the \<open>type\<close> field are a datatype.
\<close>

datatype item_type = Event | Session | Error | Network | Performance | Heatmap | Screen

record 'a QueuedItem =
  type :: item_type
  data :: "nat \<times> 'a"
  timestamp :: int
  retryCount :: nat

text \<open>
  The body handed to \<open>sendToBackend\<close>: one record as it is, \<open>{ events: dataArray }\<close>,
  or \<open>{ heatmaps: dataArray, apiKey, appId }\<close>. \<open>sendToBackend\<close> adds the same five
  configuration fields to every body before the hook sees it; they are constant and
  left out.
\<close>

datatype 'a body = Single 'a | EventsBatch "'a list" | HeatmapBatch "'a list"

text \<open>
  What a call of \<open>sendToBackend\<close> does: it returns without fetching when the
  \<open>beforeSend\<close> hook gives a falsy value, returns after a successful fetch, or throws
  (network error, or a response that is not ok).
\<close>

datatype outcome = Skipped | Delivered | Threw

record 'a call =
  endpoint :: string
  payload :: "'a body"
  result :: outcome

text \<open>
  The parts of the configuration and of the surroundings that the queue reads:
  the optional \<open>beforeSend\<close> hook (as the truthiness of what it returns) and the
  enrichment \<open>{...data, applicationId, sessionId, platform}\<close> of \<open>enqueue\<close>.
\<close>

record 'a transport_env =
  beforeSend :: "('a body \<Rightarrow> bool) option"
  enrich :: "'a \<Rightarrow> 'a"

text \<open>
  The state: the queue, the calls of \<open>sendToBackend\<close> made so far (the observable
  output), and the next free object reference. The calls are logged per category:
  the sends of one group follow one another, those of different groups run
  concurrently, in an order the code does not fix.
\<close>

record 'a transport =
  queue :: "'a QueuedItem list"
  calls :: "item_type \<Rightarrow> 'a call list"
  nextRef :: nat

text \<open>
  The network during one flush: \<open>fate net ty k\<close> says whether the fetch for the
  \<open>k\<close>-th element of the group \<open>ty\<close> succeeds, and \<open>settled net ty\<close> is the time at
  which the promise of the group \<open>ty\<close> settles.
\<close>

record network =
  fate :: "item_type \<Rightarrow> nat \<Rightarrow> bool"
  settled :: "item_type \<Rightarrow> nat"


definition maxRetries :: nat where
  "maxRetries = 3"

fun getEndpointForType :: "item_type \<Rightarrow> string" where
  "getEndpointForType Event = ''/v1/rum/events''"
| "getEndpointForType Error = ''/v1/errors/errors''"
| "getEndpointForType Network = ''/v1/rum/network-requests''"
| "getEndpointForType Performance = ''/v1/rum/web-vitals''"
| "getEndpointForType Heatmap = ''/v1/sdk/heatmap''"
| "getEndpointForType Screen = ''/v1/rum/page-views''"
| "getEndpointForType Session = ''/v1/rum/events''"

text \<open>
  \<open>sendToBackend\<close>. The argument \<open>ok\<close> says whether the fetch of this call would
  succeed (no network error and \<open>response.ok\<close>).
\<close>

definition sendToBackend :: "'a transport_env \<Rightarrow> bool \<Rightarrow> string \<Rightarrow> 'a body \<Rightarrow> 'a call" where
  "sendToBackend env ok ep b =
     \<lparr>endpoint = ep, payload = b,
      result = (case beforeSend env of
                  Some hook \<Rightarrow> if \<not> hook b then Skipped else if ok then Delivered else Threw
                | None \<Rightarrow> if ok then Delivered else Threw)\<rparr>"

text \<open>
  \<open>for (const data of dataArray) await this.sendToBackend(endpoint, data)\<close>:
  the first call that throws ends the loop. The result is the calls made and whether
  the loop ran to its end. \<open>net k\<close> is the fate of the fetch for the \<open>k\<close>-th element
  of the group.
\<close>

fun send_each :: "'a transport_env \<Rightarrow> (nat \<Rightarrow> bool) \<Rightarrow> string \<Rightarrow> nat \<Rightarrow> 'a list
    \<Rightarrow> 'a call list \<times> bool" where
  "send_each env net ep k [] = ([], True)"
| "send_each env net ep k (d # ds) =
     (let c = sendToBackend env (net k) ep (Single d) in
      if result c = Threw then ([c], False)
      else (case send_each env net ep (Suc k) ds of (cs, fin) \<Rightarrow> (c # cs, fin)))"

text \<open>The \<open>try\<close> block of \<open>flush\<close> for one group.\<close>

definition send_group :: "'a transport_env \<Rightarrow> (nat \<Rightarrow> bool) \<Rightarrow> item_type \<Rightarrow> 'a list
    \<Rightarrow> 'a call list \<times> bool" where
  "send_group env net ty dataArray =
     (let ep = getEndpointForType ty in
      if ty = Event \<and> length dataArray > 1 then
        (let c = sendToBackend env (net 0) ''/v1/rum/events/batch'' (EventsBatch dataArray)
         in ([c], result c \<noteq> Threw))
      else if ty = Heatmap then
        (let c = sendToBackend env (net 0) ep (HeatmapBatch dataArray)
         in ([c], result c \<noteq> Threw))
      else if ty = Screen then send_each env net ''/v1/rum/page-views'' 0 dataArray
      else send_each env net ep 0 dataArray)"

text \<open>
  Grouping: \<open>grouped[item.type].push(item.data)\<close>, a new key going to the end, so that
  \<open>Object.entries\<close> lists the groups in the order of their first item.
\<close>

fun group_push :: "(item_type \<times> 'd list) list \<Rightarrow> item_type \<Rightarrow> 'd \<Rightarrow> (item_type \<times> 'd list) list" where
  "group_push [] ty d = [(ty, [d])]"
| "group_push ((ty', ds) # gs) ty d =
     (if ty' = ty then (ty', ds @ [d]) # gs else (ty', ds) # group_push gs ty d)"

definition grouped_of :: "'a QueuedItem list \<Rightarrow> (item_type \<times> (nat \<times> 'a) list) list" where
  "grouped_of items = foldl (\<lambda>g it. group_push g (type it) (data it)) [] items"

text \<open>
  The \<open>catch\<close> block: for each element of the group, the first item with that very
  data object is looked up, and pushed again with its count raised when the count is
  below \<open>maxRetries\<close>.
\<close>

definition requeue_one :: "'a QueuedItem list \<Rightarrow> nat \<times> 'a \<Rightarrow> 'a QueuedItem list" where
  "requeue_one items d =
     (case find (\<lambda>i. fst (data i) = fst d) items of
        Some originalItem \<Rightarrow>
          if retryCount originalItem < maxRetries
          then [originalItem\<lparr>retryCount := retryCount originalItem + 1\<rparr>] else []
      | None \<Rightarrow> [])"

definition requeue :: "'a QueuedItem list \<Rightarrow> (nat \<times> 'a) list \<Rightarrow> 'a QueuedItem list" where
  "requeue items dataArray = concat (map (requeue_one items) dataArray)"

text \<open>One group of \<open>flush\<close>: the calls it makes and the items it pushes back.\<close>

definition flush_group :: "'a transport_env \<Rightarrow> network \<Rightarrow> 'a QueuedItem list
    \<Rightarrow> item_type \<times> (nat \<times> 'a) list \<Rightarrow> 'a call list \<times> 'a QueuedItem list" where
  "flush_group env net items g =
     (case send_group env (fate net (fst g)) (fst g) (map snd (snd g)) of
        (cs, fin) \<Rightarrow> (cs, if fin then [] else requeue items (snd g)))"

text \<open>
  \<open>flush\<close>. The groups are sent by concurrent promises, one per entry of
  \<open>Object.entries(grouped)\<close>. Each group adds its calls to the log of its category.
  The \<open>catch\<close> block of a group pushes its items back in one go when the group
  settles, so the queue afterwards holds the blocks of the groups in the order in
  which they settle (groups settling at the same time in the order of
  \<open>Object.entries\<close>). \<open>flush\<close> as a whole is one step: calls of \<open>enqueue\<close> or
  \<open>flush\<close> that arrive while it waits are taken as coming after it.
\<close>

definition flush :: "'a transport_env \<Rightarrow> network \<Rightarrow> 'a transport \<Rightarrow> 'a transport" where
  "flush env net st =
     (if queue st = [] then st
      else
        (let items = queue st;
             rs = map (\<lambda>g. (fst g, flush_group env net items g)) (grouped_of items)
         in st\<lparr>queue := concat (map (\<lambda>r. snd (snd r)) (sort_key (\<lambda>r. settled net (fst r)) rs)),
               calls := (\<lambda>ty. calls st ty @
                          (case map_of rs ty of Some r \<Rightarrow> fst r | None \<Rightarrow> []))\<rparr>))"






text \<open>The object references held in a queue.\<close>

definition refs_of :: "'a QueuedItem list \<Rightarrow> nat list" where
  "refs_of items = map (\<lambda>i. fst (data i)) items"

text \<open>
  What the queue keeps true: no two items share their data object, every reference
  in use is below the next free one, and no count is above \<open>maxRetries\<close>.
\<close>

definition queue_ok :: "'a transport \<Rightarrow> bool" where
  "queue_ok st \<longleftrightarrow>
     distinct (refs_of (queue st)) \<and>
     list_all (\<lambda>i. fst (data i) < nextRef st \<and> retryCount i \<le> maxRetries) (queue st)"

text \<open>
  The requests the specification's grouping rule plans for a group, before any failure:
  one batch for several events, one request per entry otherwise. A second plan has the
  rule of the code, where a heatmap group is one batch too.
\<close>

definition spec_plan :: "item_type \<Rightarrow> 'a list \<Rightarrow> (string \<times> 'a body) list" where
  "spec_plan ty ds =
     (if ty = Event \<and> length ds > 1 then [(''/v1/rum/events/batch'', EventsBatch ds)]
      else map (\<lambda>d. (getEndpointForType ty, Single d)) ds)"

definition code_plan :: "item_type \<Rightarrow> 'a list \<Rightarrow> (string \<times> 'a body) list" where
  "code_plan ty ds =
     (if ty = Event \<and> length ds > 1 then [(''/v1/rum/events/batch'', EventsBatch ds)]
      else if ty = Heatmap then [(''/v1/sdk/heatmap'', HeatmapBatch ds)]
      else map (\<lambda>d. (getEndpointForType ty, Single d)) ds)"

definition request_of :: "'a call \<Rightarrow> string \<times> 'a body" where
  "request_of c = (endpoint c, payload c)"

text \<open>
  A plan as it is carried out: the requests up to and including the first one whose
  call throws.
\<close>

fun cut_at_throw :: "'a transport_env \<Rightarrow> (nat \<Rightarrow> bool) \<Rightarrow> nat \<Rightarrow> (string \<times> 'a body) list
    \<Rightarrow> (string \<times> 'a body) list" where
  "cut_at_throw env net k [] = []"
| "cut_at_throw env net k (r # rs) =
     r # (if result (sendToBackend env (net k) (fst r) (snd r)) = Threw then []
          else cut_at_throw env net (Suc k) rs)"



text \<open>Sample surroundings: a network that fails or succeeds throughout, and hooks.\<close>

definition all_fail :: network where
  "all_fail = \<lparr>fate = (\<lambda>ty k. False), settled = (\<lambda>ty. 0)\<rparr>"

definition all_ok :: network where
  "all_ok = \<lparr>fate = (\<lambda>ty k. True), settled = (\<lambda>ty. 0)\<rparr>"

definition screens_first :: network where
  "screens_first = \<lparr>fate = (\<lambda>ty k. False), settled = (\<lambda>ty. if ty = Screen then 0 else 1)\<rparr>"

definition veto_a :: "string body \<Rightarrow> bool" where
  "veto_a b = (b \<noteq> Single ''a'')"

definition veto_all :: "string body \<Rightarrow> bool" where
  "veto_all b = False"

definition no_hook :: "string transport_env" where
  "no_hook = \<lparr>beforeSend = None, enrich = id\<rparr>"

definition item_of :: "item_type \<Rightarrow> nat \<Rightarrow> string \<Rightarrow> nat \<Rightarrow> string QueuedItem" where
  "item_of ty r d n = \<lparr>type = ty, data = (r, d), timestamp = 0, retryCount = n\<rparr>"

definition queue_of :: "string QueuedItem list \<Rightarrow> string transport" where
  "queue_of items = \<lparr>queue = items, calls = (\<lambda>ty. []), nextRef = length items\<rparr>"

section \<open>Gesture classifier (src/src/collectors/heatmap.ts)\<close>

text \<open>
  A JavaScript number is an IEEE 754 double, and every arithmetic operation gives the
  double nearest to the exact result, a tie going to the even neighbour. \<open>fl\<close> is
  this rounding: \<open>expo x\<close> is the binary exponent of \<open>x\<close>, \<open>ulp_of x\<close> the spacing of
  the doubles around \<open>x\<close> (with the smallest exponent -1022, below which the spacing
  stays at \<open>2 powi (- 1074)\<close>). The type \<open>double\<close> holds the values of \<open>fl\<close>; \<open>dbl\<close>
  reads a real as a numeric literal is read, and \<open>val\<close> gives the value. The model
  covers finite numbers whose results stay below the largest double; signed zeros
  are not told apart. The one operation of the code that can leave the finite
  numbers on such inputs, \<open>distance / duration\<close> with duration zero, has the result
  type \<open>jsnum\<close>. \<open>Date.now()\<close> is an integer.
\<close>

definition expo :: "real \<Rightarrow> int" where
  "expo x = \<lfloor>log 2 \<bar>x\<bar>\<rfloor>"

definition round_half_even :: "real \<Rightarrow> int" where
  "round_half_even y =
     (let f = \<lfloor>y\<rfloor> in
      if y - of_int f < 1 / 2 then f
      else if y - of_int f > 1 / 2 then f + 1
      else if even f then f else f + 1)"

definition ulp_of :: "real \<Rightarrow> real" where
  "ulp_of x = 2 powi (max (expo x) (- 1022) - 52)"

definition fl :: "real \<Rightarrow> real" where
  "fl x = (if x = 0 then 0
           else sgn x * of_int (round_half_even (\<bar>x\<bar> / ulp_of x)) * ulp_of x)"

definition eta :: real where
  "eta = 2 powi (- 1074)"

typedef double = "range fl"
  by blast

definition val :: "double \<Rightarrow> real" where
  "val a = Rep_double a"

definition dbl :: "real \<Rightarrow> double" where
  "dbl x = Abs_double (fl x)"

definition js_sub :: "double \<Rightarrow> double \<Rightarrow> double" where
  "js_sub a b = dbl (val a - val b)"

definition js_add :: "double \<Rightarrow> double \<Rightarrow> double" where
  "js_add a b = dbl (val a + val b)"

definition js_mul :: "double \<Rightarrow> double \<Rightarrow> double" where
  "js_mul a b = dbl (val a * val b)"

definition js_sqrt :: "double \<Rightarrow> double" where
  "js_sqrt a = dbl (sqrt (val a))"

text \<open>Division by a number that is not zero: by a double, and by an integer.\<close>

definition js_quot :: "double \<Rightarrow> double \<Rightarrow> double" where
  "js_quot a b = dbl (val a / val b)"

definition js_over :: "double \<Rightarrow> int \<Rightarrow> double" where
  "js_over a d = dbl (val a / of_int d)"

datatype jsnum = Num double | PosInfinity | NegInfinity | NaN

definition js_divide :: "double \<Rightarrow> int \<Rightarrow> jsnum" where
  "js_divide a d =
     (if d \<noteq> 0 then Num (js_over a d)
      else if val a > 0 then PosInfinity else if val a < 0 then NegInfinity else NaN)"

fun js_ge :: "jsnum \<Rightarrow> double \<Rightarrow> bool" where
  "js_ge (Num v) c = (val v \<ge> val c)"
| "js_ge PosInfinity c = True"
| "js_ge NegInfinity c = False"
| "js_ge NaN c = False"

datatype touch_type = Tap | LongPress | Swipe | Pinch | ScrollTouch

datatype direction = Up | Down | Left | Right

record TouchPoint =
  tp_x :: double
  tp_y :: double
  tp_timestamp :: int
  tp_force :: "double option"

text \<open>The \<open>extra\<close> argument of \<open>recordTouch\<close>, with the keys its callers use.\<close>

record touch_extra =
  ex_direction :: "direction option"
  ex_velocity :: "jsnum option"
  ex_duration :: "int option"
  ex_force :: "double option"
  ex_endX :: "double option"
  ex_endY :: "double option"
  ex_scale :: "double option"

definition no_extra :: touch_extra where
  "no_extra = \<lparr>ex_direction = None, ex_velocity = None, ex_duration = None, ex_force = None,
                ex_endX = None, ex_endY = None, ex_scale = None\<rparr>"

record TouchData =
  td_type :: touch_type
  td_x :: double
  td_y :: double
  td_relativeX :: double
  td_relativeY :: double
  td_screenName :: string
  td_screenWidth :: double
  td_screenHeight :: double
  td_timestamp :: int
  td_extra :: touch_extra

record ScrollData =
  sd_screenName :: string
  sd_scrollDepth :: int
  sd_maxScrollDepth :: int
  sd_contentHeight :: double
  sd_viewportHeight :: double
  sd_direction :: direction
  sd_timestamp :: int

text \<open>What the collector hands to the transport: \<open>sendTouchData\<close> or \<open>sendScrollData\<close>.\<close>

datatype hm_record = TouchRec TouchData | ScrollRec ScrollData

record heatmap_config =
  trackTouches :: bool
  trackScrolls :: bool
  trackGestures :: bool
  touchSampling :: "real option"

text \<open>
  The fields of \<open>HeatmapCollector\<close> that its gesture and scroll methods read or write,
  and three parts of the surroundings: the handles of the pending timeouts of the
  runtime, the next handle \<open>setTimeout\<close> returns (handles are truthy), and the log of
  the records handed to the transport.
\<close>

record collector =
  currentScreen :: string
  screenWidth :: double
  screenHeight :: double
  touchQueue :: "TouchData list"
  scrollQueue :: "ScrollData list"
  maxScrollDepth :: "string \<rightharpoonup> int"
  scrollStartY :: double
  touchStartTime :: int
  touchStartPoint :: "TouchPoint option"
  longPressTimeout :: "nat option"
  timers :: "nat list"
  nextTimer :: nat
  sent :: "hm_record list"

definition LONG_PRESS_DURATION :: int where
  "LONG_PRESS_DURATION = 500"

definition SWIPE_THRESHOLD :: double where
  "SWIPE_THRESHOLD = dbl 50"

definition SWIPE_VELOCITY_THRESHOLD :: double where
  "SWIPE_VELOCITY_THRESHOLD = dbl (3 / 10)"

definition MAX_QUEUE_SIZE :: nat where
  "MAX_QUEUE_SIZE = 50"

definition setCurrentScreen :: "string \<Rightarrow> collector \<Rightarrow> collector" where
  "setCurrentScreen screenName st =
     st\<lparr>currentScreen := screenName, maxScrollDepth := (maxScrollDepth st)(screenName \<mapsto> 0)\<rparr>"

definition setScreenDimensions :: "double \<Rightarrow> double \<Rightarrow> collector \<Rightarrow> collector" where
  "setScreenDimensions width height st = st\<lparr>screenWidth := width, screenHeight := height\<rparr>"

text \<open>\<open>flush\<close> of the collector: the touches go first, then the scrolls.\<close>

definition hm_flush :: "collector \<Rightarrow> collector" where
  "hm_flush st =
     (let st1 = (if touchQueue st \<noteq> []
                 then st\<lparr>sent := sent st @ map TouchRec (touchQueue st), touchQueue := []\<rparr>
                 else st)
      in if scrollQueue st1 \<noteq> []
         then st1\<lparr>sent := sent st1 @ map ScrollRec (scrollQueue st1), scrollQueue := []\<rparr>
         else st1)"

text \<open>
  \<open>recordTouch\<close>; \<open>rand\<close> is the value of \<open>Math.random()\<close> and \<open>now\<close> the clock
  behind the timestamp. The draw and the sampling rate are only compared, never
  computed with, and are given by their values.
\<close>

definition recordTouch :: "heatmap_config \<Rightarrow> real \<Rightarrow> int \<Rightarrow> touch_type \<Rightarrow> double \<Rightarrow> double
    \<Rightarrow> touch_extra \<Rightarrow> collector \<Rightarrow> collector" where
  "recordTouch cfg rand now ty x y extra st =
     (let sampling = (case touchSampling cfg of Some s \<Rightarrow> s | None \<Rightarrow> 1) in
      if rand > sampling then st
      else
        (let touchData =
               \<lparr>td_type = ty, td_x = x, td_y = y,
                td_relativeX = (if val (screenWidth st) > 0 then js_quot x (screenWidth st) else dbl 0),
                td_relativeY = (if val (screenHeight st) > 0 then js_quot y (screenHeight st) else dbl 0),
                td_screenName = currentScreen st,
                td_screenWidth = screenWidth st,
                td_screenHeight = screenHeight st,
                td_timestamp = now,
                td_extra = extra\<rparr>;
             st1 = st\<lparr>touchQueue := touchQueue st @ [touchData]\<rparr>
         in if length (touchQueue st1) \<ge> MAX_QUEUE_SIZE then hm_flush st1 else st1))"

text \<open>\<open>getSwipeDirection\<close>; \<open>Math.abs\<close> is exact.\<close>

definition getSwipeDirection :: "double \<Rightarrow> double \<Rightarrow> direction" where
  "getSwipeDirection dx dy =
     (let absDx = \<bar>val dx\<bar>; absDy = \<bar>val dy\<bar> in
      if absDx > absDy then (if val dx > 0 then Right else Left)
      else (if val dy > 0 then Down else Up))"

text \<open>
  \<open>onTouchStart\<close>: the timeout is armed and its handle stored; a timeout armed by an
  earlier call stays pending, as the code does not clear it.
\<close>

definition onTouchStart :: "heatmap_config \<Rightarrow> int \<Rightarrow> double \<Rightarrow> double \<Rightarrow> double option
    \<Rightarrow> collector \<Rightarrow> collector" where
  "onTouchStart cfg now x y force st =
     (if \<not> trackTouches cfg then st
      else st\<lparr>touchStartTime := now,
              touchStartPoint := Some \<lparr>tp_x = x, tp_y = y, tp_timestamp = now, tp_force = force\<rparr>,
              longPressTimeout := Some (nextTimer st),
              timers := timers st @ [nextTimer st],
              nextTimer := Suc (nextTimer st)\<rparr>)"

text \<open>The callback given to \<open>setTimeout\<close>, and the runtime running the timeout \<open>h\<close>.\<close>

definition longPressCallback :: "heatmap_config \<Rightarrow> real \<Rightarrow> int \<Rightarrow> collector \<Rightarrow> collector" where
  "longPressCallback cfg rand now st =
     (case touchStartPoint st of
        Some p \<Rightarrow>
          recordTouch cfg rand now LongPress (tp_x p) (tp_y p)
            (no_extra\<lparr>ex_duration := Some LONG_PRESS_DURATION, ex_force := tp_force p\<rparr>) st
      | None \<Rightarrow> st)"

definition timer_fires :: "heatmap_config \<Rightarrow> real \<Rightarrow> int \<Rightarrow> nat \<Rightarrow> collector \<Rightarrow> collector" where
  "timer_fires cfg rand now h st =
     (if h \<in> set (timers st)
      then longPressCallback cfg rand now (st\<lparr>timers := removeAll h (timers st)\<rparr>)
      else st)"

definition onTouchEnd :: "heatmap_config \<Rightarrow> real \<Rightarrow> int \<Rightarrow> double \<Rightarrow> double \<Rightarrow> collector \<Rightarrow> collector" where
  "onTouchEnd cfg rand now x y st =
     (if \<not> trackTouches cfg then st
      else
        (let st1 = (case longPressTimeout st of
                      Some h \<Rightarrow> st\<lparr>timers := removeAll h (timers st), longPressTimeout := None\<rparr>
                    | None \<Rightarrow> st)
         in case touchStartPoint st1 of
              None \<Rightarrow> st1
            | Some p \<Rightarrow>
                (let duration = now - touchStartTime st1;
                     dx = js_sub x (tp_x p);
                     dy = js_sub y (tp_y p);
                     distance = js_sqrt (js_add (js_mul dx dx) (js_mul dy dy));
                     velocity = js_divide distance duration;
                     st2 =
                       (if val distance < 10 \<and> duration < LONG_PRESS_DURATION then
                          recordTouch cfg rand now Tap (tp_x p) (tp_y p)
                            (no_extra\<lparr>ex_duration := Some duration, ex_force := tp_force p\<rparr>) st1
                        else if val distance \<ge> val SWIPE_THRESHOLD \<and>
                                js_ge velocity SWIPE_VELOCITY_THRESHOLD then
                          recordTouch cfg rand now Swipe (tp_x p) (tp_y p)
                            (no_extra\<lparr>ex_direction := Some (getSwipeDirection dx dy),
                                      ex_velocity := Some velocity,
                                      ex_duration := Some duration,
                                      ex_endX := Some x, ex_endY := Some y\<rparr>) st1
                        else st1)
                 in st2\<lparr>touchStartPoint := None\<rparr>)))"

text \<open>
  The scroll depth of \<open>onScroll\<close>. \<open>Math.round\<close> gives the nearest integer, a half
  going upwards, as \<open>round\<close> does, and is exact; so is \<open>Math.min\<close>.
\<close>

definition scrollDepth_of :: "double \<Rightarrow> double \<Rightarrow> double \<Rightarrow> int" where
  "scrollDepth_of scrollY contentHeight viewportHeight =
     (let maxScrollY = js_sub contentHeight viewportHeight in
      if val maxScrollY > 0
      then min 100 (round (val (js_mul (js_quot scrollY maxScrollY) (dbl 100)))) else 100)"

text \<open>\<open>this.maxScrollDepth.get(screen) || 0\<close>: the high-water mark of a screen.\<close>

definition previousMax_of :: "collector \<Rightarrow> string \<Rightarrow> int" where
  "previousMax_of st screen = (case maxScrollDepth st screen of Some v \<Rightarrow> v | None \<Rightarrow> 0)"

definition onScroll :: "heatmap_config \<Rightarrow> int \<Rightarrow> double \<Rightarrow> double \<Rightarrow> double \<Rightarrow> collector \<Rightarrow> collector" where
  "onScroll cfg now scrollY contentHeight viewportHeight st =
     (if \<not> trackScrolls cfg then st
      else
        (let scrollDepth = scrollDepth_of scrollY contentHeight viewportHeight;
             previousMax = previousMax_of st (currentScreen st);
             st1 =
               (if scrollDepth > previousMax then
                  (let scrollData =
                         \<lparr>sd_screenName = currentScreen st,
                          sd_scrollDepth = scrollDepth,
                          sd_maxScrollDepth = scrollDepth,
                          sd_contentHeight = contentHeight,
                          sd_viewportHeight = viewportHeight,
                          sd_direction = (if val scrollY > val (scrollStartY st) then Down else Up),
                          sd_timestamp = now\<rparr>;
                       st' = st\<lparr>maxScrollDepth := (maxScrollDepth st)(currentScreen st \<mapsto> scrollDepth),
                               scrollQueue := scrollQueue st @ [scrollData]\<rparr>
                   in if length (scrollQueue st') \<ge> MAX_QUEUE_SIZE then hm_flush st' else st')
                else st)
         in st1\<lparr>scrollStartY := scrollY\<rparr>))"

definition onPinch :: "heatmap_config \<Rightarrow> real \<Rightarrow> int \<Rightarrow> double \<Rightarrow> double \<Rightarrow> double \<Rightarrow> collector \<Rightarrow> collector" where
  "onPinch cfg rand now scale x y st =
     (if \<not> trackGestures cfg then st
      else recordTouch cfg rand now Pinch x y (no_extra\<lparr>ex_scale := Some scale\<rparr>) st)"

text \<open>The calls the collector receives, and a run of them.\<close>

datatype hm_event =
    SetCurrentScreen string
  | SetScreenDimensions double double
  | TouchStart int double double "double option"
  | TimerFires real int nat
  | TouchEnd real int double double
  | Scroll int double double double
  | PinchEv real int double double double
  | FlushEv

fun hm_step :: "heatmap_config \<Rightarrow> collector \<Rightarrow> hm_event \<Rightarrow> collector" where
  "hm_step cfg st (SetCurrentScreen s) = setCurrentScreen s st"
| "hm_step cfg st (SetScreenDimensions w h) = setScreenDimensions w h st"
| "hm_step cfg st (TouchStart now x y force) = onTouchStart cfg now x y force st"
| "hm_step cfg st (TimerFires rand now h) = timer_fires cfg rand now h st"
| "hm_step cfg st (TouchEnd rand now x y) = onTouchEnd cfg rand now x y st"
| "hm_step cfg st (Scroll now scrollY ch vh) = onScroll cfg now scrollY ch vh st"
| "hm_step cfg st (PinchEv rand now scale x y) = onPinch cfg rand now scale x y st"
| "hm_step cfg st FlushEv = hm_flush st"

definition hm_run :: "heatmap_config \<Rightarrow> hm_event list \<Rightarrow> collector \<Rightarrow> collector" where
  "hm_run cfg evs st = foldl (hm_step cfg) st evs"

text \<open>
  Of a call: whether it is a touch-down or a touch-up, whether the value of
  \<open>Math.random()\<close> it brings is below 1, and whether it is the runtime running the
  timeout \<open>h\<close>.
\<close>

fun is_touch :: "hm_event \<Rightarrow> bool" where
  "is_touch (TouchStart now x y force) = True"
| "is_touch (TouchEnd rand now x y) = True"
| "is_touch ev = False"

fun draw_below_1 :: "hm_event \<Rightarrow> bool" where
  "draw_below_1 (TimerFires rand now h) = (rand < 1)"
| "draw_below_1 (TouchEnd rand now x y) = (rand < 1)"
| "draw_below_1 (PinchEv rand now scale x y) = (rand < 1)"
| "draw_below_1 ev = True"

fun fires :: "nat \<Rightarrow> hm_event \<Rightarrow> bool" where
  "fires h (TimerFires rand now h') = (h' = h)"
| "fires h ev = False"

text \<open>
  Every touch and every scroll record the collector has produced so far, in order:
  those already handed to the transport, then those still in its own queue.
\<close>

definition touches_of :: "hm_record list \<Rightarrow> TouchData list" where
  "touches_of rs = concat (map (\<lambda>r. case r of TouchRec t \<Rightarrow> [t] | ScrollRec s \<Rightarrow> []) rs)"

definition scrolls_of :: "hm_record list \<Rightarrow> ScrollData list" where
  "scrolls_of rs = concat (map (\<lambda>r. case r of TouchRec t \<Rightarrow> [] | ScrollRec s \<Rightarrow> [s]) rs)"

definition touches :: "collector \<Rightarrow> TouchData list" where
  "touches st = touches_of (sent st) @ touchQueue st"

definition scrolls :: "collector \<Rightarrow> ScrollData list" where
  "scrolls st = scrolls_of (sent st) @ scrollQueue st"

definition longPresses :: "TouchData list \<Rightarrow> TouchData list" where
  "longPresses ts = filter (\<lambda>t. td_type t = LongPress) ts"

definition collector_init :: collector where
  "collector_init =
     \<lparr>currentScreen = [], screenWidth = dbl 0, screenHeight = dbl 0, touchQueue = [],
      scrollQueue = [], maxScrollDepth = Map.empty, scrollStartY = dbl 0, touchStartTime = 0,
      touchStartPoint = None,
      longPressTimeout = None, timers = [], nextTimer = 1, sent = []\<rparr>"

text \<open>
  Names for three expressions of the code: the sampling rate
  \<open>touchSampling ?? 1\<close>, the record \<open>recordTouch\<close> builds, and the state after
  \<open>onTouchEnd\<close> has cleared the timeout.
\<close>

definition sampling_of :: "heatmap_config \<Rightarrow> real" where
  "sampling_of cfg = (case touchSampling cfg of Some s \<Rightarrow> s | None \<Rightarrow> 1)"

definition touchData_of :: "collector \<Rightarrow> int \<Rightarrow> touch_type \<Rightarrow> double \<Rightarrow> double \<Rightarrow> touch_extra \<Rightarrow> TouchData" where
  "touchData_of st now ty x y extra =
     \<lparr>td_type = ty, td_x = x, td_y = y,
      td_relativeX = (if val (screenWidth st) > 0 then js_quot x (screenWidth st) else dbl 0),
      td_relativeY = (if val (screenHeight st) > 0 then js_quot y (screenHeight st) else dbl 0),
      td_screenName = currentScreen st,
      td_screenWidth = screenWidth st,
      td_screenHeight = screenHeight st,
      td_timestamp = now,
      td_extra = extra\<rparr>"

definition cancel_timeout :: "collector \<Rightarrow> collector" where
  "cancel_timeout st =
     (case longPressTimeout st of
        Some h \<Rightarrow> st\<lparr>timers := removeAll h (timers st), longPressTimeout := None\<rparr>
      | None \<Rightarrow> st)"

text \<open>A sample configuration: everything tracked, no sampling rate given.\<close>

definition track_all :: heatmap_config where
  "track_all = \<lparr>trackTouches = True, trackScrolls = True, trackGestures = True, touchSampling = None\<rparr>"

text \<open>A second sample configuration: one touch record in two is kept.\<close>

definition half_sampled :: heatmap_config where
  "half_sampled = track_all\<lparr>touchSampling := Some (1 / 2)\<rparr>"

text \<open>
  Sample states: a touch held at the origin since time 0, the same after its timeout
  has run, a collector on the screen \<open>home\<close>, and one with marks for two screens.
\<close>

definition pressed :: collector where
  "pressed = onTouchStart track_all 0 (dbl 0) (dbl 0) None collector_init"

definition long_pressed :: collector where
  "long_pressed = timer_fires track_all 0 500 1 pressed"

definition home_screen :: collector where
  "home_screen = setCurrentScreen ''home'' collector_init"

definition two_screens :: collector where
  "two_screens = collector_init\<lparr>maxScrollDepth := [''a'' \<mapsto> 40, ''b'' \<mapsto> 70]\<rparr>"

text \<open>
  A third sample state: a second touch goes down at \<open>(2, 2)\<close> at time 10 while the
  touch at the origin is still held, with no touch-up in between.
\<close>

definition pressed_twice :: collector where
  "pressed_twice = onTouchStart track_all 10 (dbl 2) (dbl 2) None pressed"

section \<open>Properties of the dispatch queue\<close>

subsection \<open>The requests of a flush\<close>

lemma request_of_sendToBackend: "request_of (sendToBackend env ok ep b) = (ep, b)"
  by (simp add: request_of_def sendToBackend_def)

lemma send_each_requests:
  "map request_of (fst (send_each env net ep k ds)) = cut_at_throw env net k (map (\<lambda>d. (ep, Single d)) ds)"
proof (induction ds arbitrary: k)
  case Nil
  then show ?case by simp
next
  case (Cons d ds)
  from Cons [of "Suc k"] show ?case
    by (cases "send_each env net ep (Suc k) ds") (simp add: Let_def request_of_sendToBackend)
qed

lemma send_group_requests:
  "map request_of (fst (send_group env net ty ds)) = cut_at_throw env net 0 (code_plan ty ds)"
  by (cases ty) (auto simp: send_group_def code_plan_def Let_def request_of_sendToBackend send_each_requests)

lemma grouped_of_snoc: "grouped_of (items @ [it]) = group_push (grouped_of items) (type it) (data it)"
  by (simp add: grouped_of_def)

lemma group_push_keys: "map fst (group_push g ty d) = (if ty \<in> set (map fst g) then map fst g else map fst g @ [ty])"
  by (induction g ty d rule: group_push.induct) auto

lemma group_push_lookup:
  "map_of (group_push g ty d) ty' =
     (if ty' = ty then Some ((case map_of g ty of Some ds \<Rightarrow> ds | None \<Rightarrow> []) @ [d]) else map_of g ty')"
  by (induction g ty d rule: group_push.induct) auto

lemma grouped_of_keys_distinct: "distinct (map fst (grouped_of items))"
  by (induction items rule: rev_induct) (auto simp: grouped_of_snoc group_push_keys grouped_of_def)

lemma grouped_of_lookup:
  "map_of (grouped_of items) ty =
     (if filter (\<lambda>i. type i = ty) items = [] then None
      else Some (map data (filter (\<lambda>i. type i = ty) items)))"
proof (induction items rule: rev_induct)
  case Nil
  then show ?case by (simp add: grouped_of_def)
next
  case (snoc it items)
  then show ?case by (auto simp: grouped_of_snoc group_push_lookup)
qed

lemma map_of_tagged:
  "map_of (map (\<lambda>g. (fst g, f g)) gs) k = map_option (\<lambda>v. f (k, v)) (map_of gs k)"
  by (induction gs) auto

lemma flush_calls:
  "calls (flush env net st) ty =
     calls st ty @
       (if filter (\<lambda>i. type i = ty) (queue st) = [] then []
        else fst (send_group env (fate net ty) ty
                    (map snd (map data (filter (\<lambda>i. type i = ty) (queue st))))))"
proof (cases "queue st = []")
  case True
  then show ?thesis by (simp add: flush_def)
next
  case False
  have "fst (flush_group env net (queue st) g) =
        fst (send_group env (fate net (fst g)) (fst g) (map snd (snd g)))" for g
    by (simp add: flush_group_def split: prod.splits)
  with False show ?thesis
    by (simp add: flush_def Let_def map_of_tagged grouped_of_lookup)
qed

lemma flush_requests:
  "map request_of (calls (flush env net st) ty) =
     map request_of (calls st ty) @
       (if filter (\<lambda>i. type i = ty) (queue st) = [] then []
        else cut_at_throw env (fate net ty) 0
               (code_plan ty (map snd (map data (filter (\<lambda>i. type i = ty) (queue st))))))"
  by (simp add: flush_calls send_group_requests)

subsection \<open>Retry counts and object references\<close>

lemma find_SomeD: "find P xs = Some x \<Longrightarrow> x \<in> set xs \<and> P x"
  by (induction xs) (auto split: if_splits)

lemma requeue_one_cases:
  "\<exists>i \<in> set items. fst (data i) = fst d \<and> retryCount i < maxRetries \<and>
        j = i\<lparr>retryCount := Suc (retryCount i)\<rparr>"
  if "j \<in> set (requeue_one items d)"
proof (cases "find (\<lambda>i. fst (data i) = fst d) items")
  case None
  with that show ?thesis by (simp add: requeue_one_def)
next
  case (Some i)
  from find_SomeD [OF Some] have "i \<in> set items" "fst (data i) = fst d" by simp_all
  moreover from Some that have "retryCount i < maxRetries \<and> j = i\<lparr>retryCount := Suc (retryCount i)\<rparr>"
    by (simp add: requeue_one_def split: if_splits)
  ultimately show ?thesis by blast
qed



























subsection \<open>Which groups are pushed back\<close>

lemma send_each_fin:
  "snd (send_each env net ep k ds) \<longleftrightarrow> list_all (\<lambda>c. result c \<noteq> Threw) (fst (send_each env net ep k ds))"
proof (induction ds arbitrary: k)
  case Nil
  then show ?case by simp
next
  case (Cons d ds)
  from Cons [of "Suc k"] show ?case
    by (cases "send_each env net ep (Suc k) ds") (simp add: Let_def)
qed

lemma send_group_fin:
  "snd (send_group env net ty ds) \<longleftrightarrow> list_all (\<lambda>c. result c \<noteq> Threw) (fst (send_group env net ty ds))"
  by (simp add: send_group_def Let_def send_each_fin)

lemma grouped_of_member:
  assumes "(ty, ds) \<in> set (grouped_of items)"
  shows "ds = map data (filter (\<lambda>i. type i = ty) items)"
proof -
  from assms grouped_of_keys_distinct [of items] have "map_of (grouped_of items) ty = Some ds"
    by simp
  then show ?thesis by (simp add: grouped_of_lookup split: if_splits)
qed

lemma requeue_one_type:
  assumes d: "distinct (refs_of items)" and i': "i' \<in> set items"
    and j: "j \<in> set (requeue_one items (data i'))"
  shows "type j = type i'"
proof -
  from requeue_one_cases [OF j] obtain i where
    i: "i \<in> set items" "fst (data i) = fst (data i')" "j = i\<lparr>retryCount := Suc (retryCount i)\<rparr>"
    by blast
  with d i' have "i = i'" by (auto simp: refs_of_def distinct_map inj_on_def)
  with i show ?thesis by simp
qed

lemma flush_requeued_group_failed:
  assumes ok: "queue_ok st" and j: "j \<in> set (queue (flush env net st))"
  shows "\<not> snd (send_group env (fate net (type j)) (type j)
                  (map snd (map data (filter (\<lambda>i. type i = type j) (queue st)))))"
proof -
  let ?items = "queue st"
  from j have ne: "?items \<noteq> []" by (auto simp: flush_def)
  with j obtain g where g: "g \<in> set (grouped_of ?items)"
      and jg: "j \<in> set (snd (flush_group env net ?items g))"
    by (auto simp: flush_def Let_def)
  obtain ty ds where gd: "g = (ty, ds)" by (cases g)
  with g have ds: "ds = map data (filter (\<lambda>i. type i = ty) ?items)"
    by (simp add: grouped_of_member)
  from jg gd have nf: "\<not> snd (send_group env (fate net ty) ty (map snd ds))"
      and jr: "j \<in> set (requeue ?items ds)"
    by (auto simp: flush_group_def split: prod.splits if_splits)
  from jr ds obtain i' where i': "i' \<in> set ?items" "type i' = ty"
      "j \<in> set (requeue_one ?items (data i'))"
    by (auto simp: requeue_def)
  from ok have "distinct (refs_of ?items)" by (simp add: queue_ok_def)
  from requeue_one_type [OF this i'(1) i'(3)] i'(2) have "type j = ty" by simp
  with nf ds show ?thesis by simp
qed

subsection \<open>The order of the blocks pushed back\<close>

text \<open>
  An example: every request fails and the promise of the \<open>screen\<close> group settles
  first; then its entry comes first in the queue, before the two events.
\<close>

lemma flush_settle_order:
  "map (\<lambda>i. (fst (data i), retryCount i))
     (queue (flush no_hook screens_first
        (queue_of [item_of Event 0 ''a'' 0, item_of Screen 1 ''b'' 0, item_of Event 2 ''c'' 0]))) =
   [(1, 1), (0, 1), (2, 1)]"
  by (simp add: flush_def grouped_of_def flush_group_def send_group_def sendToBackend_def
      no_hook_def screens_first_def queue_of_def item_of_def Let_def requeue_def requeue_one_def
      maxRetries_def)

section \<open>Properties of the rounding\<close>

lemma expo_bounds:
  assumes "x \<noteq> 0"
  shows "2 powi (expo x) \<le> \<bar>x\<bar>" and "\<bar>x\<bar> < 2 powi (expo x + 1)"
proof -
  from assms have pos: "0 < \<bar>x\<bar>" by simp
  have "\<lfloor>log 2 \<bar>x\<bar>\<rfloor> = expo x" by (simp add: expo_def)
  with floor_log_eq_powr_iff [OF pos, of 2 "expo x"]
  have "2 powr (of_int (expo x)) \<le> \<bar>x\<bar> \<and> \<bar>x\<bar> < 2 powr (of_int (expo x) + 1)" by simp
  moreover have "(2::real) powr (of_int (expo x) + 1) = 2 powr (of_int (expo x + 1))" by simp
  ultimately show "2 powi (expo x) \<le> \<bar>x\<bar>" and "\<bar>x\<bar> < 2 powi (expo x + 1)"
    by (simp_all only: powr_real_of_int' [of 2, simplified])
qed

lemma expo_eqI:
  assumes "2 powi e \<le> \<bar>x\<bar>" and "\<bar>x\<bar> < 2 powi (e + 1)"
  shows "expo x = e"
proof -
  have "(0::real) < 2 powi e" by simp
  with assms(1) have pos: "0 < \<bar>x\<bar>" by linarith
  have "2 powr (of_int e) \<le> \<bar>x\<bar> \<and> \<bar>x\<bar> < 2 powr (of_int e + 1)"
    using assms powr_real_of_int' [of 2 e] powr_real_of_int' [of 2 "e + 1"] by simp
  with floor_log_eq_powr_iff [OF pos, of 2 e] show ?thesis by (simp add: expo_def)
qed

lemma expo_minus: "expo (- x) = expo x"
  by (simp add: expo_def)

lemma rhe_floor: "\<lfloor>y\<rfloor> \<le> round_half_even y" "round_half_even y \<le> \<lfloor>y\<rfloor> + 1"
  by (simp_all add: round_half_even_def Let_def)

lemma rhe_of_int: "round_half_even (of_int n) = n"
  by (simp add: round_half_even_def Let_def)

lemma rhe_mono:
  assumes "y \<le> z"
  shows "round_half_even y \<le> round_half_even z"
proof (cases "\<lfloor>y\<rfloor> = \<lfloor>z\<rfloor>")
  case True
  with assms show ?thesis by (auto simp: round_half_even_def Let_def)
next
  case False
  with assms have "\<lfloor>y\<rfloor> < \<lfloor>z\<rfloor>" using floor_mono [OF assms] by linarith
  then have "\<lfloor>y\<rfloor> + 1 \<le> \<lfloor>z\<rfloor>" by simp
  with rhe_floor(2) [of y] rhe_floor(1) [of z] show ?thesis by linarith
qed

lemma rhe_ge: "of_int n \<le> y \<Longrightarrow> n \<le> round_half_even y"
  using rhe_mono [of "of_int n" y] by (simp add: rhe_of_int)

lemma rhe_le: "y \<le> of_int n \<Longrightarrow> round_half_even y \<le> n"
  using rhe_mono [of y "of_int n"] by (simp add: rhe_of_int)

lemma ulp_pos: "0 < ulp_of x"
  by (simp add: ulp_of_def)

lemma ulp_minus: "ulp_of (- x) = ulp_of x"
  by (simp add: ulp_of_def expo_minus)

lemma fl_0: "fl 0 = 0"
  by (simp add: fl_def)

lemma fl_minus: "fl (- x) = - fl x"
  by (simp add: fl_def ulp_minus sgn_minus)

lemma fl_pos: "0 < x \<Longrightarrow> fl x = of_int (round_half_even (x / ulp_of x)) * ulp_of x"
  by (simp add: fl_def)

lemma fl_nonneg: "0 \<le> x \<Longrightarrow> 0 \<le> fl x"
proof (cases "x = 0")
  case True
  then show ?thesis by (simp add: fl_0)
next
  case False
  assume "0 \<le> x"
  with False have x: "0 < x" by simp
  then have "0 \<le> x / ulp_of x" using ulp_pos [of x] by simp
  then have "0 \<le> round_half_even (x / ulp_of x)" using rhe_ge [of 0] by simp
  with x ulp_pos [of x] show ?thesis by (simp add: fl_pos)
qed

lemma fl_nonpos: "x \<le> 0 \<Longrightarrow> fl x \<le> 0"
  using fl_nonneg [of "- x"] by (simp add: fl_minus)

lemma ulp_eq: "ulp_of x * 2 powi 52 = 2 powi (max (expo x) (- 1022))"
  by (simp add: ulp_of_def power_int_diff)

lemma ulp_eq53: "ulp_of x * 2 powi 53 = 2 powi (max (expo x) (- 1022) + 1)"
  by (simp add: ulp_of_def power_int_diff power_int_add)

lemma fl_upper:
  assumes "0 < x"
  shows "fl x \<le> 2 powi (max (expo x) (- 1022) + 1)"
proof -
  from assms have "x < 2 powi (expo x + 1)" using expo_bounds(2) [of x] by simp
  also have "\<dots> \<le> 2 powi (max (expo x) (- 1022) + 1)"
    by (rule power_int_increasing) simp_all
  finally have "x < ulp_of x * 2 powi 53" by (simp only: ulp_eq53)
  then have "x / ulp_of x \<le> of_int (2 ^ 53)"
    using ulp_pos [of x] by (simp add: field_simps)
  then have "round_half_even (x / ulp_of x) \<le> 2 ^ 53" by (rule rhe_le)
  then have "of_int (round_half_even (x / ulp_of x)) \<le> (2 powi 53 :: real)"
    by (metis of_int_le_iff of_int_numeral of_int_power power_int_numeral)
  then have "of_int (round_half_even (x / ulp_of x)) * ulp_of x \<le> 2 powi 53 * ulp_of x"
    using ulp_pos [of x] by (simp add: mult_right_mono)
  with assms show ?thesis by (simp add: fl_pos ulp_eq53 [symmetric] mult.commute)
qed

lemma fl_lower:
  assumes "0 < x" and "- 1022 \<le> expo x"
  shows "2 powi (expo x) \<le> fl x"
proof -
  from assms(2) have m: "max (expo x) (- 1022) = expo x" by simp
  from assms have "2 powi (expo x) \<le> x" using expo_bounds(1) [of x] by simp
  then have "ulp_of x * 2 powi 52 \<le> x" by (simp only: ulp_eq m)
  then have "of_int (2 ^ 52) \<le> x / ulp_of x"
    using ulp_pos [of x] by (simp add: field_simps)
  then have "2 ^ 52 \<le> round_half_even (x / ulp_of x)" by (rule rhe_ge)
  then have "(2 powi 52 :: real) \<le> of_int (round_half_even (x / ulp_of x))"
    by (metis of_int_le_iff of_int_numeral of_int_power power_int_numeral)
  then have "2 powi 52 * ulp_of x \<le> of_int (round_half_even (x / ulp_of x)) * ulp_of x"
    using ulp_pos [of x] by (simp add: mult_right_mono)
  with assms show ?thesis using ulp_eq [of x] by (simp add: fl_pos m mult.commute)
qed

lemma fl_mono_pos:
  assumes "0 < x" and "x \<le> y"
  shows "fl x \<le> fl y"
proof -
  from assms have y: "0 < y" by simp
  have e: "expo x \<le> expo y"
  proof (rule ccontr)
    assume "\<not> expo x \<le> expo y"
    then have "expo y + 1 \<le> expo x" by simp
    then have "(2::real) powi (expo y + 1) \<le> 2 powi (expo x)"
      by (intro power_int_increasing) simp_all
    with expo_bounds(2) [of y] expo_bounds(1) [of x] assms y show False by simp
  qed
  show ?thesis
  proof (cases "max (expo x) (- 1022) = max (expo y) (- 1022)")
    case True
    then have u: "ulp_of x = ulp_of y" by (simp add: ulp_of_def)
    from assms(2) have "x / ulp_of y \<le> y / ulp_of y"
      using ulp_pos [of y] by (simp add: divide_right_mono)
    then have "round_half_even (x / ulp_of y) \<le> round_half_even (y / ulp_of y)" by (rule rhe_mono)
    then have "of_int (round_half_even (x / ulp_of y)) * ulp_of y
        \<le> of_int (round_half_even (y / ulp_of y)) * ulp_of y"
      using ulp_pos [of y] by (simp add: mult_right_mono)
    with assms(1) y show ?thesis by (simp add: fl_pos u)
  next
    case False
    with e have lt: "max (expo x) (- 1022) + 1 \<le> expo y" and n: "- 1022 \<le> expo y" by auto
    have "fl x \<le> 2 powi (max (expo x) (- 1022) + 1)" using assms(1) by (rule fl_upper)
    also have "\<dots> \<le> 2 powi (expo y)" using lt by (intro power_int_increasing) simp_all
    also have "\<dots> \<le> fl y" using y n by (rule fl_lower)
    finally show ?thesis .
  qed
qed

lemma fl_mono:
  assumes "x \<le> y"
  shows "fl x \<le> fl y"
proof -
  consider "0 < x" | "x \<le> 0" "0 \<le> y" | "y < 0" by linarith
  then show ?thesis
  proof cases
    case 1
    then show ?thesis using assms by (rule fl_mono_pos)
  next
    case 2
    then show ?thesis using fl_nonpos [of x] fl_nonneg [of y] by linarith
  next
    case 3
    with assms have "0 < - y" "- y \<le> - x" by simp_all
    then have "fl (- y) \<le> fl (- x)" by (rule fl_mono_pos)
    then show ?thesis by (simp add: fl_minus)
  qed
qed

lemma fl_eval:
  assumes "2 powi e \<le> \<bar>x\<bar>" and "\<bar>x\<bar> < 2 powi (e + 1)"
  shows "fl x = sgn x * of_int (round_half_even (\<bar>x\<bar> / 2 powi (max e (- 1022) - 52))) *
                  2 powi (max e (- 1022) - 52)"
proof -
  have "(0::real) < 2 powi e" by simp
  with assms(1) have "0 < \<bar>x\<bar>" by linarith
  then have "x \<noteq> 0" by simp
  moreover from assms have "expo x = e" by (rule expo_eqI)
  ultimately show ?thesis by (simp add: fl_def ulp_of_def)
qed

lemma fl_dyadic:
  assumes m: "\<bar>m\<bar> < 2 ^ 53" and k: "- 1074 \<le> k"
  shows "fl (of_int m * 2 powi k) = of_int m * 2 powi k"
proof (cases "m = 0")
  case True
  then show ?thesis by (simp add: fl_0)
next
  case False
  define x :: real where "x = of_int m * 2 powi k"
  define E where "E = max (expo x) (- 1022)"
  define u where "u = ulp_of x"
  from False have x0: "x \<noteq> 0" by (simp add: x_def)
  have ax: "\<bar>x\<bar> = of_int \<bar>m\<bar> * 2 powi k" by (simp add: x_def abs_mult)
  from m have "(of_int \<bar>m\<bar> :: real) < 2 powi 53"
    by (metis of_int_less_iff of_int_numeral of_int_power power_int_numeral)
  then have "\<bar>x\<bar> < 2 powi 53 * 2 powi k" unfolding ax by (simp add: mult_strict_right_mono)
  then have "\<bar>x\<bar> < 2 powi (k + 53)" by (simp add: power_int_add mult.commute)
  with expo_bounds(1) [OF x0] have a: "(2::real) powi (expo x) < 2 powi (k + 53)" by linarith
  have "expo x < k + 53"
  proof (rule ccontr)
    assume "\<not> expo x < k + 53"
    then have "k + 53 \<le> expo x" by simp
    then have "(2::real) powi (k + 53) \<le> 2 powi (expo x)"
      by (intro power_int_increasing) simp_all
    with a show False by simp
  qed
  with k have E: "E - 52 \<le> k" by (simp add: E_def)
  define j where "j = nat (k - (E - 52))"
  from E have kj: "k = (E - 52) + int j" by (simp add: j_def)
  have u: "u = 2 powi (E - 52)" by (simp add: u_def ulp_of_def E_def)
  have upos: "0 < u" by (simp add: u)
  have p: "(2::real) powi k = u * 2 ^ j"
    unfolding u by (subst kj) (simp add: power_int_add)
  have "of_int \<bar>m\<bar> * (u * 2 ^ j) / u = (of_int \<bar>m\<bar> * 2 ^ j :: real)"
    using upos by simp
  then have q: "\<bar>x\<bar> / u = of_int (\<bar>m\<bar> * 2 ^ j)"
    unfolding ax p by simp
  have "round_half_even (\<bar>x\<bar> / u) = \<bar>m\<bar> * 2 ^ j"
    unfolding q by (rule rhe_of_int)
  then have "fl x = sgn x * (of_int (\<bar>m\<bar> * 2 ^ j) * u)"
    using x0 by (simp add: fl_def u_def)
  also have "of_int (\<bar>m\<bar> * 2 ^ j) * u = \<bar>x\<bar>"
    using q upos by (simp add: field_simps)
  also have "sgn x * \<bar>x\<bar> = x" by (simp add: sgn_mult_abs)
  finally show ?thesis by (simp add: x_def)
qed

lemma fl_of_int: "\<bar>m\<bar> < 2 ^ 53 \<Longrightarrow> fl (of_int m) = of_int m"
  using fl_dyadic [of m 0] by simp

lemma fl_numeral: "numeral n < (2::int) ^ 53 \<Longrightarrow> fl (numeral n) = numeral n"
  using fl_of_int [of "numeral n"] by simp

lemma fl_1: "fl 1 = 1"
  using fl_of_int [of 1] by simp

lemma fl_is_dyadic:
  "\<exists>m k. fl x = of_int m * 2 powi k \<and> \<bar>m\<bar> < 2 ^ 53 \<and> - 1074 \<le> k"
proof (cases "x = 0")
  case True
  have "fl x = of_int 0 * 2 powi 0 \<and> \<bar>0::int\<bar> < 2 ^ 53 \<and> - 1074 \<le> (0::int)"
    using True by (simp add: fl_0)
  then show ?thesis by blast
next
  case False
  define E where "E = max (expo x) (- 1022)"
  define r where "r = round_half_even (\<bar>x\<bar> / ulp_of x)"
  have u: "ulp_of x = 2 powi (E - 52)" by (simp add: ulp_of_def E_def)
  have E: "- 1022 \<le> E" by (simp add: E_def)
  define sg :: int where "sg = (if 0 < x then 1 else - 1)"
  have f: "fl x = of_int sg * of_int r * 2 powi (E - 52)"
    using False by (simp add: fl_def r_def u sgn_real_def sg_def)
  have "0 \<le> \<bar>x\<bar> / ulp_of x" using ulp_pos [of x] by simp
  then have r0: "0 \<le> r" unfolding r_def using rhe_ge [of 0] by simp
  from False have "\<bar>x\<bar> < 2 powi (expo x + 1)" by (rule expo_bounds(2))
  also have "\<dots> \<le> 2 powi (E + 1)" unfolding E_def by (rule power_int_increasing) simp_all
  finally have "\<bar>x\<bar> < ulp_of x * 2 powi 53" by (simp only: ulp_eq53 E_def)
  then have "\<bar>x\<bar> / ulp_of x \<le> of_int (2 ^ 53)"
    using ulp_pos [of x] by (simp add: field_simps)
  then have r53: "r \<le> 2 ^ 53" unfolding r_def by (rule rhe_le)
  have s: "\<bar>sg\<bar> = 1" by (simp add: sg_def)
  show ?thesis
  proof (cases "r = 2 ^ 53")
    case True
    have "(2::real) powi (E - 51) = 2 * 2 powi (E - 52)"
      using power_int_add_1 [of "2::real" "E - 52"] by (simp add: algebra_simps)
    then have "fl x = of_int (sg * 2 ^ 52) * 2 powi (E - 51)"
      unfolding f True by simp
    moreover have "\<bar>sg * 2 ^ 52\<bar> < (2::int) ^ 53"
      by (simp add: sg_def)
    moreover from E have "- 1074 \<le> E - 51" by simp
    ultimately show ?thesis by blast
  next
    case False
    with r53 r0 have "\<bar>r\<bar> < 2 ^ 53" by simp
    then have "\<bar>sg * r\<bar> < 2 ^ 53" by (simp add: abs_mult s)
    moreover have "fl x = of_int (sg * r) * 2 powi (E - 52)" unfolding f by simp
    moreover from E have "- 1074 \<le> E - 52" by simp
    ultimately show ?thesis by blast
  qed
qed

lemma fl_idem: "fl (fl x) = fl x"
proof -
  from fl_is_dyadic [of x] obtain m k where
    "fl x = of_int m * 2 powi k" "\<bar>m\<bar> < 2 ^ 53" "- 1074 \<le> k" by blast
  then show ?thesis by (simp add: fl_dyadic)
qed

lemma pow2_split: "k = e + int j \<Longrightarrow> (2::real) powi k = 2 powi e * 2 ^ j"
  by (simp add: power_int_add)

lemma eta_pos: "0 < eta"
  by (simp add: eta_def)

lemma fl_on_grid: "\<exists>n. fl x = of_int n * eta"
proof -
  from fl_is_dyadic [of x] obtain m k where
    mk: "fl x = of_int m * 2 powi k" "- 1074 \<le> k" by blast
  define j where "j = nat (k + 1074)"
  from mk(2) have "k = - 1074 + int j" by (simp add: j_def)
  then have "(2::real) powi k = eta * 2 ^ j"
    unfolding eta_def by (rule pow2_split)
  with mk(1) have "fl x = of_int (m * 2 ^ j) * eta" by simp
  then show ?thesis by blast
qed

lemma fl_sub_pos: "0 < fl (fl a - fl b) \<longleftrightarrow> fl b < fl a"
proof
  assume "0 < fl (fl a - fl b)"
  then show "fl b < fl a" using fl_nonpos [of "fl a - fl b"] by (cases "fl b < fl a") simp_all
next
  assume lt: "fl b < fl a"
  from fl_on_grid [of a] fl_on_grid [of b] obtain na nb where
    n: "fl a = of_int na * eta" "fl b = of_int nb * eta" by blast
  from lt have "of_int nb * eta < of_int na * eta"
    unfolding n .
  with eta_pos have "nb < na" by (simp only: mult_less_cancel_right_pos of_int_less_iff)
  then have "1 \<le> na - nb" by simp
  then have "(1::real) \<le> of_int (na - nb)" by (simp only: of_int_1_le_iff)
  then have "1 * eta \<le> of_int (na - nb) * eta"
    using eta_pos by (simp only: mult_le_cancel_right_pos)
  then have "eta \<le> fl a - fl b" unfolding n by (simp add: algebra_simps)
  then have "fl eta \<le> fl (fl a - fl b)" by (rule fl_mono)
  moreover have "fl eta = eta"
    unfolding eta_def using fl_dyadic [of 1 "- 1074"] by (simp only: of_int_1 mult_1) simp
  ultimately show "0 < fl (fl a - fl b)" using eta_pos by linarith
qed

lemma fl_half: "fl (1 / 2) = 1 / 2"
  using fl_dyadic [of 1 "- 1"] by simp

lemma fl_threshold: "fl (3 / 10) = 5404319552844595 / 18014398509481984"
  using fl_eval [of "- 2" "3 / 10"] by (simp add: round_half_even_def Let_def)

lemma fl_threshold_le: "1 / 2 \<le> x \<Longrightarrow> fl (3 / 10) \<le> fl x"
proof -
  assume "1 / 2 \<le> x"
  then have "fl (1 / 2) \<le> fl x" by (rule fl_mono)
  then show ?thesis by (simp add: fl_half fl_threshold)
qed

lemmas fl_simps = fl_0 fl_1 fl_numeral fl_minus fl_half

subsection \<open>The type of doubles\<close>

lemma val_dbl: "val (dbl x) = fl x"
  by (simp add: val_def dbl_def Abs_double_inverse)

lemma fl_val: "fl (val a) = val a"
proof -
  have "val a \<in> range fl" unfolding val_def by (rule Rep_double)
  then obtain y where "val a = fl y" by blast
  then show ?thesis by (simp add: fl_idem)
qed

lemma dbl_val: "dbl (val a) = a"
  by (simp add: dbl_def fl_val) (simp add: val_def Rep_double_inverse)

lemma val_inject: "val a = val b \<longleftrightarrow> a = b"
  by (simp add: val_def Rep_double_inject)

lemma dbl_eq_iff: "dbl x = dbl y \<longleftrightarrow> fl x = fl y"
proof
  assume "dbl x = dbl y"
  then have "val (dbl x) = val (dbl y)" by simp
  then show "fl x = fl y" by (simp only: val_dbl)
next
  assume "fl x = fl y"
  then show "dbl x = dbl y" by (simp add: dbl_def)
qed

lemma js_sub_pos: "0 < val (js_sub a b) \<longleftrightarrow> val b < val a"
  using fl_sub_pos [of "val a" "val b"] by (simp add: js_sub_def val_dbl fl_val)

lemma js_ge_divide:
  "js_ge (js_divide a d) c \<longleftrightarrow> (if d = 0 then 0 < val a else val c \<le> val (js_over a d))"
  by (simp add: js_divide_def)

lemmas js_ops = js_sub_def js_add_def js_mul_def js_sqrt_def js_quot_def js_over_def val_dbl

lemma sqrt_less_iff_sq: "0 \<le> c \<Longrightarrow> sqrt a < c \<longleftrightarrow> a < c * c"
proof -
  assume c: "0 \<le> c"
  then have "sqrt (c * c) = c" by simp
  then have "sqrt a < c \<longleftrightarrow> sqrt a < sqrt (c * c)" by simp
  then show ?thesis by (simp only: real_sqrt_less_iff)
qed

lemma sqrt_ge_iff_sq: "0 \<le> c \<Longrightarrow> c \<le> sqrt a \<longleftrightarrow> c * c \<le> a"
  using sqrt_less_iff_sq [of c a] by (simp add: not_less [symmetric])

lemma sqrt_squares: "sqrt 25 = 5" "sqrt 400 = 20" "sqrt 10000 = 100" "sqrt 250000 = 500"
  by (rule real_sqrt_unique; simp)+

section \<open>Properties of the gesture classifier\<close>

subsection \<open>Records produced, and what each method leaves alone\<close>

lemma touches_of_append: "touches_of (xs @ ys) = touches_of xs @ touches_of ys"
  by (simp add: touches_of_def)

lemma scrolls_of_append: "scrolls_of (xs @ ys) = scrolls_of xs @ scrolls_of ys"
  by (simp add: scrolls_of_def)

lemma touches_of_TouchRec: "touches_of (map TouchRec ts) = ts"
  by (induction ts) (simp_all add: touches_of_def)

lemma touches_of_ScrollRec: "touches_of (map ScrollRec ss) = []"
  by (induction ss) (simp_all add: touches_of_def)

lemma scrolls_of_TouchRec: "scrolls_of (map TouchRec ts) = []"
  by (induction ts) (simp_all add: scrolls_of_def)

lemma scrolls_of_ScrollRec: "scrolls_of (map ScrollRec ss) = ss"
  by (induction ss) (simp_all add: scrolls_of_def)

lemmas records_simps = touches_of_append scrolls_of_append touches_of_TouchRec
  touches_of_ScrollRec scrolls_of_TouchRec scrolls_of_ScrollRec

lemma touches_hm_flush: "touches (hm_flush st) = touches st"
  by (simp add: hm_flush_def touches_def Let_def records_simps)

lemma scrolls_hm_flush: "scrolls (hm_flush st) = scrolls st"
  by (simp add: hm_flush_def scrolls_def Let_def records_simps)

lemma hm_flush_frame:
  "maxScrollDepth (hm_flush st) = maxScrollDepth st"
  "touchStartPoint (hm_flush st) = touchStartPoint st"
  "touchStartTime (hm_flush st) = touchStartTime st"
  "longPressTimeout (hm_flush st) = longPressTimeout st"
  "timers (hm_flush st) = timers st"
  "currentScreen (hm_flush st) = currentScreen st"
  by (simp_all add: hm_flush_def Let_def)

lemma touches_recordTouch:
  "touches (recordTouch cfg rand now ty x y extra st) =
     touches st @ (if rand > sampling_of cfg then [] else [touchData_of st now ty x y extra])"
  by (simp add: recordTouch_def sampling_of_def touchData_of_def Let_def touches_hm_flush)
     (simp add: touches_def)

lemma scrolls_recordTouch: "scrolls (recordTouch cfg rand now ty x y extra st) = scrolls st"
  by (simp add: recordTouch_def Let_def scrolls_hm_flush) (simp add: scrolls_def)

lemma recordTouch_frame:
  "maxScrollDepth (recordTouch cfg rand now ty x y extra st) = maxScrollDepth st"
  "touchStartPoint (recordTouch cfg rand now ty x y extra st) = touchStartPoint st"
  "touchStartTime (recordTouch cfg rand now ty x y extra st) = touchStartTime st"
  "longPressTimeout (recordTouch cfg rand now ty x y extra st) = longPressTimeout st"
  "timers (recordTouch cfg rand now ty x y extra st) = timers st"
  "currentScreen (recordTouch cfg rand now ty x y extra st) = currentScreen st"
  by (simp_all add: recordTouch_def Let_def hm_flush_frame)

lemma cancel_timeout_frame:
  "touches (cancel_timeout st) = touches st"
  "scrolls (cancel_timeout st) = scrolls st"
  "touchStartPoint (cancel_timeout st) = touchStartPoint st"
  "touchStartTime (cancel_timeout st) = touchStartTime st"
  "maxScrollDepth (cancel_timeout st) = maxScrollDepth st"
  "currentScreen (cancel_timeout st) = currentScreen st"
  "screenWidth (cancel_timeout st) = screenWidth st"
  "screenHeight (cancel_timeout st) = screenHeight st"
  by (simp_all add: cancel_timeout_def touches_def scrolls_def split: option.splits)

lemma touchData_of_cancel: "touchData_of (cancel_timeout st) = touchData_of st"
  by (simp add: touchData_of_def cancel_timeout_frame fun_eq_iff)

lemma onTouchEnd_when_idle:
  "touchStartPoint st = None \<Longrightarrow>
     onTouchEnd cfg rand now x y st = (if trackTouches cfg then cancel_timeout st else st)"
  by (simp add: onTouchEnd_def cancel_timeout_def split: option.splits)

lemma touches_onTouchEnd:
  assumes "trackTouches cfg" and "touchStartPoint st = Some p"
  shows "touches (onTouchEnd cfg rand now x y st) =
    touches st @
      (let duration = now - touchStartTime st;
           dx = js_sub x (tp_x p);
           dy = js_sub y (tp_y p);
           distance = js_sqrt (js_add (js_mul dx dx) (js_mul dy dy));
           velocity = js_divide distance duration
       in if rand > sampling_of cfg then []
          else if val distance < 10 \<and> duration < LONG_PRESS_DURATION then
            [touchData_of st now Tap (tp_x p) (tp_y p)
               (no_extra\<lparr>ex_duration := Some duration, ex_force := tp_force p\<rparr>)]
          else if val distance \<ge> val SWIPE_THRESHOLD \<and>
                  js_ge velocity SWIPE_VELOCITY_THRESHOLD then
            [touchData_of st now Swipe (tp_x p) (tp_y p)
               (no_extra\<lparr>ex_direction := Some (getSwipeDirection dx dy),
                         ex_velocity := Some velocity,
                         ex_duration := Some duration,
                         ex_endX := Some x, ex_endY := Some y\<rparr>)]
          else [])"
proof -
  have 1: "onTouchEnd cfg rand now x y st =
     (let st1 = cancel_timeout st;
          duration = now - touchStartTime st1;
                     dx = js_sub x (tp_x p);
                     dy = js_sub y (tp_y p);
                     distance = js_sqrt (js_add (js_mul dx dx) (js_mul dy dy));
                     velocity = js_divide distance duration;
                     st2 =
                       (if val distance < 10 \<and> duration < LONG_PRESS_DURATION then
                          recordTouch cfg rand now Tap (tp_x p) (tp_y p)
                            (no_extra\<lparr>ex_duration := Some duration, ex_force := tp_force p\<rparr>) st1
                        else if val distance \<ge> val SWIPE_THRESHOLD \<and>
                                js_ge velocity SWIPE_VELOCITY_THRESHOLD then
                          recordTouch cfg rand now Swipe (tp_x p) (tp_y p)
                            (no_extra\<lparr>ex_direction := Some (getSwipeDirection dx dy),
                                      ex_velocity := Some velocity,
                                      ex_duration := Some duration,
                                      ex_endX := Some x, ex_endY := Some y\<rparr>) st1
                        else st1)
                 in st2\<lparr>touchStartPoint := None\<rparr>)"
    using assms unfolding onTouchEnd_def cancel_timeout_def [symmetric]
    by (simp add: cancel_timeout_frame)
  have 2: "touches (s\<lparr>touchStartPoint := None\<rparr>) = touches s" for s
    by (simp add: touches_def)
  show ?thesis unfolding 1
    by (simp add: Let_def 2 touches_recordTouch cancel_timeout_frame touchData_of_cancel)
qed


lemma onTouchEnd_active:
  assumes "trackTouches cfg" and "touchStartPoint st = Some p"
  shows "onTouchEnd cfg rand now x y st =
     (let st1 = cancel_timeout st;
          duration = now - touchStartTime st;
          dx = js_sub x (tp_x p);
          dy = js_sub y (tp_y p);
          distance = js_sqrt (js_add (js_mul dx dx) (js_mul dy dy));
          velocity = js_divide distance duration;
          st2 =
            (if val distance < 10 \<and> duration < LONG_PRESS_DURATION then
               recordTouch cfg rand now Tap (tp_x p) (tp_y p)
                 (no_extra\<lparr>ex_duration := Some duration, ex_force := tp_force p\<rparr>) st1
             else if val distance \<ge> val SWIPE_THRESHOLD \<and>
                     js_ge velocity SWIPE_VELOCITY_THRESHOLD then
               recordTouch cfg rand now Swipe (tp_x p) (tp_y p)
                 (no_extra\<lparr>ex_direction := Some (getSwipeDirection dx dy),
                           ex_velocity := Some velocity,
                           ex_duration := Some duration,
                           ex_endX := Some x, ex_endY := Some y\<rparr>) st1
             else st1)
      in st2\<lparr>touchStartPoint := None\<rparr>)"
  using assms unfolding onTouchEnd_def cancel_timeout_def [symmetric]
  by (simp add: cancel_timeout_frame)

lemma maxScrollDepth_cancel: "maxScrollDepth (cancel_timeout st) = maxScrollDepth st"
  by (simp add: cancel_timeout_def split: option.splits)

lemma maxScrollDepth_onTouchEnd: "maxScrollDepth (onTouchEnd cfg rand now x y st) = maxScrollDepth st"
proof (cases "trackTouches cfg")
  case False
  then show ?thesis by (simp add: onTouchEnd_def)
next
  case True
  show ?thesis
  proof (cases "touchStartPoint st")
    case None
    with True show ?thesis by (simp add: onTouchEnd_when_idle maxScrollDepth_cancel)
  next
    case (Some p)
    show ?thesis unfolding onTouchEnd_active [OF True Some]
      by (simp add: Let_def recordTouch_frame maxScrollDepth_cancel)
  qed
qed

lemma maxScrollDepth_timer_fires: "maxScrollDepth (timer_fires cfg rand now h st) = maxScrollDepth st"
  by (simp add: timer_fires_def longPressCallback_def recordTouch_frame split: option.splits)

lemma maxScrollDepth_onTouchStart: "maxScrollDepth (onTouchStart cfg now x y force st) = maxScrollDepth st"
  by (simp add: onTouchStart_def)

lemma maxScrollDepth_onPinch: "maxScrollDepth (onPinch cfg rand now scale x y st) = maxScrollDepth st"
  by (simp add: onPinch_def recordTouch_frame)

lemma previousMax_onScroll:
  "previousMax_of (onScroll cfg now scrollY ch vh st) s =
     (if trackScrolls cfg \<and> s = currentScreen st \<and>
         scrollDepth_of scrollY ch vh > previousMax_of st (currentScreen st)
      then scrollDepth_of scrollY ch vh else previousMax_of st s)"
  by (simp add: onScroll_def previousMax_of_def Let_def hm_flush_frame)

lemma scrolls_updates:
  "scrolls (s\<lparr>scrollStartY := v\<rparr>) = scrolls s"
  "scrolls (s\<lparr>maxScrollDepth := m, scrollQueue := q\<rparr>) = scrolls_of (sent s) @ q"
  by (simp_all add: scrolls_def)

lemma scrolls_onScroll:
  "scrolls (onScroll cfg now scrollY ch vh st) =
     scrolls st @
       (if trackScrolls cfg \<and> scrollDepth_of scrollY ch vh > previousMax_of st (currentScreen st)
        then [\<lparr>sd_screenName = currentScreen st,
               sd_scrollDepth = scrollDepth_of scrollY ch vh,
               sd_maxScrollDepth = scrollDepth_of scrollY ch vh,
               sd_contentHeight = ch,
               sd_viewportHeight = vh,
               sd_direction = (if val scrollY > val (scrollStartY st) then Down else Up),
               sd_timestamp = now\<rparr>]
        else [])"
  by (simp add: onScroll_def Let_def scrolls_updates scrolls_hm_flush) (simp add: scrolls_def)

lemma step_mark_mono:
  "ev \<noteq> SetCurrentScreen s \<Longrightarrow> previousMax_of st s \<le> previousMax_of (hm_step cfg st ev) s"
proof (cases ev)
  case (Scroll now scrollY ch vh)
  then show ?thesis by (simp add: previousMax_onScroll)
next
  case (SetCurrentScreen s')
  assume "ev \<noteq> SetCurrentScreen s"
  with SetCurrentScreen show ?thesis by (simp add: setCurrentScreen_def previousMax_of_def)
qed (simp_all add: previousMax_of_def maxScrollDepth_onTouchEnd maxScrollDepth_timer_fires
      maxScrollDepth_onTouchStart maxScrollDepth_onPinch hm_flush_frame setScreenDimensions_def)

lemma run_mark_mono:
  "list_all (\<lambda>ev. ev \<noteq> SetCurrentScreen s) evs \<Longrightarrow>
     previousMax_of st s \<le> previousMax_of (hm_run cfg evs st) s"
  unfolding hm_run_def
proof (induction evs arbitrary: st)
  case Nil
  then show ?case by simp
next
  case (Cons ev evs)
  from Cons.prems have "previousMax_of st s \<le> previousMax_of (hm_step cfg st ev) s"
    by (simp add: step_mark_mono)
  also from Cons have "\<dots> \<le> previousMax_of (foldl (hm_step cfg) (hm_step cfg st ev) evs) s"
    by simp
  finally show ?case by simp
qed

lemma touchStartPoint_onTouchEnd:
  "trackTouches cfg \<Longrightarrow> touchStartPoint (onTouchEnd cfg rand now x y st) = None"
proof (cases "touchStartPoint st")
  case None
  assume "trackTouches cfg"
  with None show ?thesis by (simp add: onTouchEnd_when_idle cancel_timeout_frame)
next
  case (Some p)
  assume t: "trackTouches cfg"
  show ?thesis unfolding onTouchEnd_active [OF t Some] by (simp add: Let_def)
qed

lemma touches_onTouchEnd_sampled_out:
  assumes "trackTouches cfg" and "touchStartPoint st = Some p" and "rand > sampling_of cfg"
  shows "touches (onTouchEnd cfg rand now x y st) = touches st"
  unfolding touches_onTouchEnd [OF assms(1,2)] Let_def using assms(3) by simp

lemma classification_aux:
  assumes t: "trackTouches cfg" and p: "touchStartPoint st = Some p"
    and r': "rand \<le> sampling_of cfg"
    and dx: "dx = js_sub x (tp_x p)" and dy: "dy = js_sub y (tp_y p)"
    and dist: "distance = js_sqrt (js_add (js_mul dx dx) (js_mul dy dy))"
    and d: "d = now - touchStartTime st"
  shows "val distance < 10 \<and> d < 500 \<Longrightarrow>
           \<exists>t. touches (onTouchEnd cfg rand now x y st) = touches st @ [t] \<and> td_type t = Tap \<and>
                td_x t = tp_x p \<and> td_y t = tp_y p"
    and "\<not> (val distance < 10 \<and> d < 500) \<Longrightarrow>
         val distance \<ge> 50 \<and> (d = 0 \<or> val (js_over distance d) \<ge> val (dbl (3 / 10))) \<Longrightarrow>
           \<exists>t. touches (onTouchEnd cfg rand now x y st) = touches st @ [t] \<and> td_type t = Swipe \<and>
                td_x t = tp_x p \<and> td_y t = tp_y p \<and>
                ex_direction (td_extra t) = Some (getSwipeDirection dx dy)"
    and "\<not> (val distance < 10 \<and> d < 500) \<Longrightarrow>
         \<not> (val distance \<ge> 50 \<and> (d = 0 \<or> val (js_over distance d) \<ge> val (dbl (3 / 10)))) \<Longrightarrow>
           touches (onTouchEnd cfg rand now x y st) = touches st"
proof -
  have v: "js_ge (js_divide distance d) SWIPE_VELOCITY_THRESHOLD \<longleftrightarrow>
      (d = 0 \<or> val (js_over distance d) \<ge> val (dbl (3 / 10)))" if "val distance \<ge> 50"
    using that by (auto simp: js_ge_divide SWIPE_VELOCITY_THRESHOLD_def)
  have th: "val SWIPE_THRESHOLD = 50"
    by (simp add: SWIPE_THRESHOLD_def val_dbl fl_numeral)
  have T: "touches (onTouchEnd cfg rand now x y st) =
    touches st @
      (if val distance < 10 \<and> d < LONG_PRESS_DURATION then
            [touchData_of st now Tap (tp_x p) (tp_y p)
               (no_extra\<lparr>ex_duration := Some d, ex_force := tp_force p\<rparr>)]
          else if val distance \<ge> val SWIPE_THRESHOLD \<and>
                  js_ge (js_divide distance d) SWIPE_VELOCITY_THRESHOLD then
            [touchData_of st now Swipe (tp_x p) (tp_y p)
               (no_extra\<lparr>ex_direction := Some (getSwipeDirection dx dy),
                         ex_velocity := Some (js_divide distance d),
                         ex_duration := Some d,
                         ex_endX := Some x, ex_endY := Some y\<rparr>)]
          else [])"
    unfolding touches_onTouchEnd [OF t p] Let_def dx [symmetric] dy [symmetric]
      dist [symmetric] d [symmetric]
    using r' by (simp add: not_less [symmetric])
  show "\<exists>t. touches (onTouchEnd cfg rand now x y st) = touches st @ [t] \<and> td_type t = Tap \<and>
                td_x t = tp_x p \<and> td_y t = tp_y p" if "val distance < 10 \<and> d < 500"
    using that unfolding T by (simp add: LONG_PRESS_DURATION_def touchData_of_def)
  show "\<exists>t. touches (onTouchEnd cfg rand now x y st) = touches st @ [t] \<and> td_type t = Swipe \<and>
                td_x t = tp_x p \<and> td_y t = tp_y p \<and>
                ex_direction (td_extra t) = Some (getSwipeDirection dx dy)"
    if "\<not> (val distance < 10 \<and> d < 500)"
       "val distance \<ge> 50 \<and> (d = 0 \<or> val (js_over distance d) \<ge> val (dbl (3 / 10)))"
  proof -
    from that(2) v have "js_ge (js_divide distance d) SWIPE_VELOCITY_THRESHOLD" by blast
    with that show ?thesis unfolding T
      by (simp add: LONG_PRESS_DURATION_def th touchData_of_def)
  qed
  show "touches (onTouchEnd cfg rand now x y st) = touches st"
    if "\<not> (val distance < 10 \<and> d < 500)"
       "\<not> (val distance \<ge> 50 \<and> (d = 0 \<or> val (js_over distance d) \<ge> val (dbl (3 / 10))))"
  proof -
    from that(2) v
    have "\<not> (val distance \<ge> 50 \<and> js_ge (js_divide distance d) SWIPE_VELOCITY_THRESHOLD)"
      by blast
    with that show ?thesis unfolding T
      by (simp add: LONG_PRESS_DURATION_def th)
  qed
qed

lemma onTouchStart_facts:
  assumes "trackTouches cfg"
  shows "touches (onTouchStart cfg t0 x0 y0 force st) = touches st"
    and "touchStartPoint (onTouchStart cfg t0 x0 y0 force st) =
           Some \<lparr>tp_x = x0, tp_y = y0, tp_timestamp = t0, tp_force = force\<rparr>"
    and "touchStartTime (onTouchStart cfg t0 x0 y0 force st) = t0"
    and "nextTimer st \<in> set (timers (onTouchStart cfg t0 x0 y0 force st))"
    and "longPressTimeout (onTouchStart cfg t0 x0 y0 force st) = Some (nextTimer st)"
  using assms by (simp_all add: onTouchStart_def touches_def)

lemma timer_fires_facts:
  assumes "h \<in> set (timers st)" and "touchStartPoint st = Some p"
  shows "touches (timer_fires cfg rand now h st) =
           touches st @ (if rand > sampling_of cfg then []
                         else [touchData_of st now LongPress (tp_x p) (tp_y p)
                                 (no_extra\<lparr>ex_duration := Some LONG_PRESS_DURATION,
                                           ex_force := tp_force p\<rparr>)])"
    and "touchStartPoint (timer_fires cfg rand now h st) = Some p"
    and "touchStartTime (timer_fires cfg rand now h st) = touchStartTime st"
proof -
  have 1: "touches (st\<lparr>timers := ts\<rparr>) = touches st" for ts by (simp add: touches_def)
  have 2: "touchData_of (st\<lparr>timers := ts\<rparr>) = touchData_of st" for ts
    by (simp add: touchData_of_def fun_eq_iff)
  from assms show "touches (timer_fires cfg rand now h st) =
           touches st @ (if rand > sampling_of cfg then []
                         else [touchData_of st now LongPress (tp_x p) (tp_y p)
                                 (no_extra\<lparr>ex_duration := Some LONG_PRESS_DURATION,
                                           ex_force := tp_force p\<rparr>)])"
    by (simp add: timer_fires_def longPressCallback_def touches_recordTouch 1 2)
  from assms show "touchStartPoint (timer_fires cfg rand now h st) = Some p"
    by (simp add: timer_fires_def longPressCallback_def recordTouch_frame)
  from assms show "touchStartTime (timer_fires cfg rand now h st) = touchStartTime st"
    by (simp add: timer_fires_def longPressCallback_def recordTouch_frame)
qed

lemma pressed_point:
  "touchStartPoint pressed = Some \<lparr>tp_x = dbl 0, tp_y = dbl 0, tp_timestamp = 0, tp_force = None\<rparr>"
  "touchStartTime pressed = 0" "touches pressed = []"
  by (simp_all add: pressed_def onTouchStart_def track_all_def collector_init_def touches_def touches_of_def)

lemma track_all_simps:
  "trackTouches track_all" "trackScrolls track_all" "sampling_of track_all = 1"
  by (simp_all add: track_all_def sampling_of_def)

lemma half_sampled_simps:
  "trackTouches half_sampled" "sampling_of half_sampled = 1 / 2"
  by (simp_all add: half_sampled_def track_all_def sampling_of_def)

lemma home_screen_simps:
  "currentScreen home_screen = ''home''" "previousMax_of home_screen ''home'' = 0"
  by (simp_all add: home_screen_def setCurrentScreen_def previousMax_of_def)

subsection \<open>While a touch is held\<close>

lemma timers_timer_fires:
  "h \<in> set (timers st) \<Longrightarrow> timers (timer_fires cfg rand now h st) = removeAll h (timers st)"
  by (simp add: timer_fires_def longPressCallback_def recordTouch_frame split: option.splits)

lemma timer_fires_absent: "h \<notin> set (timers st) \<Longrightarrow> timer_fires cfg rand now h st = st"
  by (simp add: timer_fires_def)

lemma timers_onTouchStart:
  "trackTouches cfg \<Longrightarrow> timers (onTouchStart cfg t0 x0 y0 force st) = timers st @ [nextTimer st]"
  by (simp add: onTouchStart_def)

lemma onScroll_frame:
  "touches (onScroll cfg now scrollY ch vh st) = touches st"
  "touchStartPoint (onScroll cfg now scrollY ch vh st) = touchStartPoint st"
  "touchStartTime (onScroll cfg now scrollY ch vh st) = touchStartTime st"
  "timers (onScroll cfg now scrollY ch vh st) = timers st"
proof -
  have 1: "touches (s\<lparr>scrollStartY := v\<rparr>) = touches s" for s v by (simp add: touches_def)
  have 2: "touches (s\<lparr>maxScrollDepth := m, scrollQueue := q\<rparr>) = touches s" for s m q
    by (simp add: touches_def)
  show "touches (onScroll cfg now scrollY ch vh st) = touches st"
    by (simp add: onScroll_def Let_def 1 2 touches_hm_flush)
  show "touchStartPoint (onScroll cfg now scrollY ch vh st) = touchStartPoint st"
    "touchStartTime (onScroll cfg now scrollY ch vh st) = touchStartTime st"
    "timers (onScroll cfg now scrollY ch vh st) = timers st"
    by (simp_all add: onScroll_def Let_def hm_flush_frame)
qed

lemma longPresses_simps:
  "longPresses [] = []" "longPresses (xs @ ys) = longPresses xs @ longPresses ys"
  "longPresses [t] = (if td_type t = LongPress then [t] else [])"
  by (simp_all add: longPresses_def)

text \<open>
  One call that is neither a touch-down nor a touch-up, made while a touch is held and
  at most the timeout \<open>h\<close> is pending: the touch stays held, and the call records a
  long press at the start point exactly when it runs the pending timeout \<open>h\<close>.
\<close>

lemma held_step:
  assumes s1: "sampling_of cfg = 1" and p: "touchStartPoint s = Some p"
    and ev: "\<not> is_touch ev" "draw_below_1 ev" and ts: "set (timers s) \<subseteq> {h}"
  shows "touchStartPoint (hm_step cfg s ev) = Some p \<and>
    touchStartTime (hm_step cfg s ev) = touchStartTime s \<and>
    set (timers (hm_step cfg s ev)) \<subseteq> {h} \<and>
    (if fires h ev \<and> h \<in> set (timers s)
     then h \<notin> set (timers (hm_step cfg s ev)) \<and>
          (\<exists>l. touches (hm_step cfg s ev) = touches s @ [l] \<and> td_type l = LongPress \<and>
               td_x l = tp_x p \<and> td_y l = tp_y p)
     else set (timers (hm_step cfg s ev)) = set (timers s) \<and>
          (\<exists>a. touches (hm_step cfg s ev) = touches s @ a \<and> longPresses a = []))"
proof (cases ev)
  case (TimerFires rand now h')
  show ?thesis
  proof (cases "h' \<in> set (timers s)")
    case True
    with ts have hh: "h' = h" by auto
    from ev(2) TimerFires s1 have r: "\<not> rand > sampling_of cfg" by simp
    from True hh have m: "h \<in> set (timers s)" by simp
    note f = timer_fires_facts [OF m p, of cfg rand now] timers_timer_fires [OF m, of cfg rand now]
    from ts have "set (removeAll h (timers s)) \<subseteq> {h}" by auto
    with TimerFires hh m r show ?thesis by (simp add: f touchData_of_def)
  next
    case False
    with ts have "\<not> (fires h ev \<and> h \<in> set (timers s))" using TimerFires by auto
    moreover from False TimerFires have "hm_step cfg s ev = s" by (simp add: timer_fires_absent)
    moreover have "touches s = touches s @ [] \<and> longPresses [] = []" by (simp add: longPresses_simps)
    ultimately show ?thesis using p ts by (metis (no_types))
  qed
next
  case (SetCurrentScreen n)
  have "touches (setCurrentScreen n s) = touches s @ []" by (simp add: setCurrentScreen_def touches_def)
  with SetCurrentScreen p ts show ?thesis
    by (auto simp: setCurrentScreen_def longPresses_simps)
next
  case (SetScreenDimensions w h2)
  have "touches (setScreenDimensions w h2 s) = touches s @ []"
    by (simp add: setScreenDimensions_def touches_def)
  with SetScreenDimensions p ts show ?thesis
    by (auto simp: setScreenDimensions_def longPresses_simps)
next
  case (TouchStart now x y force)
  with ev show ?thesis by simp
next
  case (TouchEnd rand now x y)
  with ev show ?thesis by simp
next
  case (Scroll now scrollY ch vh)
  have "touches (onScroll cfg now scrollY ch vh s) = touches s @ []" by (simp add: onScroll_frame)
  with Scroll p ts show ?thesis
    by (auto simp: onScroll_frame longPresses_simps)
next
  case (PinchEv rand now scale x y)
  have "\<exists>a. touches (onPinch cfg rand now scale x y s) = touches s @ a \<and> longPresses a = []"
    by (simp add: onPinch_def touches_recordTouch longPresses_simps touchData_of_def)
  with PinchEv p ts show ?thesis
    by (auto simp: onPinch_def recordTouch_frame)
next
  case FlushEv
  have "touches (hm_flush s) = touches s @ []" by (simp add: touches_hm_flush)
  with FlushEv p ts show ?thesis
    by (auto simp: hm_flush_frame longPresses_simps)
qed

text \<open>
  A run of such calls records exactly one long press when the timeout is run in it,
  and none otherwise.
\<close>

lemma held_run:
  assumes s1: "sampling_of cfg = 1" and p: "touchStartPoint s = Some p"
    and evs: "list_all (\<lambda>ev. \<not> is_touch ev \<and> draw_below_1 ev) evs"
    and ts: "set (timers s) \<subseteq> {h}"
  shows "touchStartPoint (hm_run cfg evs s) = Some p \<and>
    touchStartTime (hm_run cfg evs s) = touchStartTime s \<and>
    (\<exists>new. touches (hm_run cfg evs s) = touches s @ new \<and>
       (if h \<in> set (timers s) \<and> list_ex (fires h) evs
        then \<exists>l. longPresses new = [l] \<and> td_x l = tp_x p \<and> td_y l = tp_y p
        else longPresses new = []))"
  using p evs ts
proof (induction evs arbitrary: s)
  case Nil
  have "touches s = touches s @ [] \<and> longPresses [] = []" by (simp add: longPresses_simps)
  with Nil show ?case by (simp add: hm_run_def)
next
  case (Cons ev evs)
  let ?s = "hm_step cfg s ev"
  from Cons.prems(2) have e: "\<not> is_touch ev" "draw_below_1 ev"
    and es: "list_all (\<lambda>ev. \<not> is_touch ev \<and> draw_below_1 ev) evs" by simp_all
  note st = held_step [OF s1 Cons.prems(1) e Cons.prems(3)]
  from st have p': "touchStartPoint ?s = Some p" and t': "touchStartTime ?s = touchStartTime s"
    and ts': "set (timers ?s) \<subseteq> {h}" by blast+
  note ih = Cons.IH [OF p' es ts']
  have run: "hm_run cfg (ev # evs) s = hm_run cfg evs ?s" by (simp add: hm_run_def)
  from ih obtain new where new: "touches (hm_run cfg evs ?s) = touches ?s @ new"
    "if h \<in> set (timers ?s) \<and> list_ex (fires h) evs
     then \<exists>l. longPresses new = [l] \<and> td_x l = tp_x p \<and> td_y l = tp_y p
     else longPresses new = []" by blast
  show ?case
  proof (cases "fires h ev \<and> h \<in> set (timers s)")
    case True
    with st obtain l where l: "h \<notin> set (timers ?s)" "touches ?s = touches s @ [l]"
      "td_type l = LongPress" "td_x l = tp_x p" "td_y l = tp_y p" by auto
    from new l(1) have n0: "longPresses new = []" by simp
    have "touches (hm_run cfg (ev # evs) s) = touches s @ ([l] @ new)"
      by (simp add: run new(1) l(2))
    moreover have "longPresses ([l] @ new) = [l]"
      using l(3) n0 by (simp add: longPresses_def)
    ultimately have "\<exists>new'. touches (hm_run cfg (ev # evs) s) = touches s @ new' \<and>
        (\<exists>l. longPresses new' = [l] \<and> td_x l = tp_x p \<and> td_y l = tp_y p)"
      using l(4,5) by blast
    with True ih t' show ?thesis by (simp add: run)
  next
    case False
    with st obtain a where a: "set (timers ?s) = set (timers s)" "touches ?s = touches s @ a"
      "longPresses a = []" by auto
    have c: "(h \<in> set (timers s) \<and> list_ex (fires h) (ev # evs)) \<longleftrightarrow>
        (h \<in> set (timers ?s) \<and> list_ex (fires h) evs)"
      using False a(1) by auto
    have "touches (hm_run cfg (ev # evs) s) = touches s @ (a @ new)"
      by (simp add: run new(1) a(2))
    moreover have "longPresses (a @ new) = longPresses new"
      using a(3) by (simp add: longPresses_simps)
    ultimately have "\<exists>new'. touches (hm_run cfg (ev # evs) s) = touches s @ new' \<and>
       (if h \<in> set (timers s) \<and> list_ex (fires h) (ev # evs)
        then \<exists>l. longPresses new' = [l] \<and> td_x l = tp_x p \<and> td_y l = tp_y p
        else longPresses new' = [])"
      using new(2) unfolding c by metis
    with ih t' show ?thesis by (simp add: run)
  qed
qed

subsection \<open>Values on the sample inputs\<close>

lemma long_pressed_run: "hm_run track_all [TimerFires 0 500 1] pressed = long_pressed"
  by (simp add: hm_run_def long_pressed_def)

lemma distance_300_400:
  "val (js_sqrt (js_add (js_mul (js_sub (dbl 300) (dbl 0)) (js_sub (dbl 300) (dbl 0)))
                        (js_mul (js_sub (dbl 400) (dbl 0)) (js_sub (dbl 400) (dbl 0))))) = 500"
  by (simp add: js_ops fl_simps sqrt_squares)

lemma distance_3_4:
  "val (js_sqrt (js_add (js_mul (js_sub (dbl 3) (dbl 0)) (js_sub (dbl 3) (dbl 0)))
                        (js_mul (js_sub (dbl 4) (dbl 0)) (js_sub (dbl 4) (dbl 0))))) = 5"
  by (simp add: js_ops fl_simps sqrt_squares)

lemma distance_60_60:
  "50 \<le> val (js_sqrt (js_add (js_mul (js_sub (dbl 60) (dbl 0)) (js_sub (dbl 60) (dbl 0)))
                        (js_mul (js_sub (dbl (- 60)) (dbl 0)) (js_sub (dbl (- 60)) (dbl 0)))))"
proof -
  have "(50::real) \<le> sqrt 7200" by (simp add: sqrt_ge_iff_sq)
  from fl_mono [OF this] have "50 \<le> fl (sqrt 7200)" by (simp add: fl_simps)
  then show ?thesis by (simp add: js_ops fl_simps)
qed

lemma velocity_ge: "1 / 2 \<le> val a / of_int d \<Longrightarrow> val (dbl (3 / 10)) \<le> val (js_over a d)"
  by (simp add: js_ops fl_threshold_le)

lemma depth_values:
  "scrollDepth_of (dbl 10) (dbl 100) (dbl 200) = 100"
  "scrollDepth_of (dbl 50) (dbl 200) (dbl 100) = 50"
  "scrollDepth_of (dbl 250) (dbl 200) (dbl 100) = 100"
  "scrollDepth_of (dbl 0) (dbl 200) (dbl 100) = 0"
  "scrollDepth_of (dbl (- 50)) (dbl 200) (dbl 100) = - 50"
proof -
  have 1: "fl (5 / 2) = 5 / 2" using fl_dyadic [of 5 "- 1"] by simp
  show "scrollDepth_of (dbl 10) (dbl 100) (dbl 200) = 100"
    "scrollDepth_of (dbl 50) (dbl 200) (dbl 100) = 50"
    "scrollDepth_of (dbl 250) (dbl 200) (dbl 100) = 100"
    "scrollDepth_of (dbl 0) (dbl 200) (dbl 100) = 0"
    "scrollDepth_of (dbl (- 50)) (dbl 200) (dbl 100) = - 50"
    by (simp_all add: scrollDepth_of_def Let_def js_ops fl_simps 1)
qed

lemma depth_29: "scrollDepth_of (dbl 29) (dbl 300) (dbl 100) = 14"
proof -
  have q: "fl (29 / 200) = 5224175567749775 / 36028797018963968"
    using fl_eval [of "- 3" "29 / 200"] by (simp add: round_half_even_def Let_def)
  have m: "fl (130604389193744375 / 9007199254740992) = 8162774324609023 / 562949953421312"
    using fl_eval [of 3 "130604389193744375 / 9007199254740992"]
    by (simp add: round_half_even_def Let_def)
  show ?thesis
    by (simp add: scrollDepth_of_def Let_def js_ops fl_simps q m round_def)
qed


section \<open>The claims about the dispatch queue\<close>

text \<open>
  C1, as the code has it. In every \<open>flush\<close>, the entries of one category form a group,
  in queue order, and the requests made for the group are: one batch request when the
  category is \<open>event\<close> and the group has more than one entry; one batch request with
  all the entries when the category is \<open>heatmap\<close>; one request per entry in every
  other case. They are issued in this order up to and including the first one that
  fails. Nothing is said about the order of requests of different groups.
\<close>

theorem flush_grouping:
  "map request_of (calls (flush env net st) ty) =
     map request_of (calls st ty) @
       (if filter (\<lambda>i. type i = ty) (queue st) = [] then []
        else cut_at_throw env (fate net ty) 0
               (code_plan ty (map snd (map data (filter (\<lambda>i. type i = ty) (queue st))))))"
  by (rule flush_requests)

text \<open>
  C1 as it is stated fails: a queue of two \<open>heatmap\<close> entries is flushed, on a network
  that answers every request, as one request carrying both entries, not as the two
  requests of one entry each that the stated rule plans.
\<close>

theorem flush_heatmap_batch_counterexample:
  "map request_of (calls (flush no_hook all_ok
      (queue_of [item_of Heatmap 0 ''a'' 0, item_of Heatmap 1 ''b'' 0])) Heatmap) =
     [(''/v1/sdk/heatmap'', HeatmapBatch [''a'', ''b''])] \<and>
   spec_plan Heatmap [''a'', ''b''] =
     [(''/v1/sdk/heatmap'', Single ''a''), (''/v1/sdk/heatmap'', Single ''b'')] \<and>
   map request_of (calls (flush no_hook all_ok
      (queue_of [item_of Heatmap 0 ''a'' 0, item_of Heatmap 1 ''b'' 0])) Heatmap) \<noteq>
     spec_plan Heatmap [''a'', ''b'']"
  by (simp add: flush_def grouped_of_def flush_group_def send_group_def sendToBackend_def
      request_of_def no_hook_def all_ok_def queue_of_def item_of_def spec_plan_def Let_def)



text \<open>
  C8, as the code has it. When the \<open>beforeSend\<close> hook gives a falsy value for a
  payload, \<open>sendToBackend\<close> makes no request and returns without an error. The
  entries of a group none of whose calls throws (each is vetoed, or delivered) are
  dropped by the flush: none of them is in the queue afterwards.
\<close>

theorem beforeSend_veto:
  assumes hook: "beforeSend env = Some hook"
  shows "(\<not> hook b \<longrightarrow> result (sendToBackend env ok ep b) = Skipped) \<and>
    (queue_ok st \<and>
     (\<forall>c \<in> set (fst (send_group env (fate net ty) ty
                       (map snd (map data (filter (\<lambda>i. type i = ty) (queue st)))))).
        result c \<noteq> Threw)
     \<longrightarrow> (\<forall>j \<in> set (queue (flush env net st)). type j \<noteq> ty))"
proof -
  from hook have "\<not> hook b \<longrightarrow> result (sendToBackend env ok ep b) = Skipped"
    by (simp add: sendToBackend_def)
  moreover have "\<forall>j \<in> set (queue (flush env net st)). type j \<noteq> ty"
    if ok: "queue_ok st" and "\<forall>c \<in> set (fst (send_group env (fate net ty) ty
                       (map snd (map data (filter (\<lambda>i. type i = ty) (queue st)))))).
        result c \<noteq> Threw"
  proof
    fix j assume "j \<in> set (queue (flush env net st))"
    from flush_requeued_group_failed [OF ok this] that(2) show "type j \<noteq> ty"
      by (auto simp: send_group_fin list_all_iff)
  qed
  ultimately show ?thesis by blast
qed

text \<open>
  An instance: the hook vetoes every payload and no request could succeed; a network
  entry and a heatmap entry are both dropped by the flush.
\<close>

theorem beforeSend_veto_witness:
  "beforeSend \<lparr>beforeSend = Some veto_all, enrich = id\<rparr> = Some veto_all \<and>
   \<not> veto_all (Single ''a'') \<and>
   queue_ok (queue_of [item_of Network 0 ''a'' 0, item_of Heatmap 1 ''b'' 0]) \<and>
   fst (send_group \<lparr>beforeSend = Some veto_all, enrich = id\<rparr> (fate all_fail Network) Network [''a'']) =
     [\<lparr>endpoint = ''/v1/rum/network-requests'', payload = Single ''a'', result = Skipped\<rparr>] \<and>
   result (sendToBackend \<lparr>beforeSend = Some veto_all, enrich = id\<rparr> False
            ''/v1/rum/network-requests'' (Single ''a'')) = Skipped \<and>
   queue (flush \<lparr>beforeSend = Some veto_all, enrich = id\<rparr> all_fail
            (queue_of [item_of Network 0 ''a'' 0, item_of Heatmap 1 ''b'' 0])) = []"
  using beforeSend_veto [of "\<lparr>beforeSend = Some veto_all, enrich = id\<rparr>" veto_all
     "Single ''a''" False "''/v1/rum/network-requests''"
     "queue_of [item_of Network 0 ''a'' 0, item_of Heatmap 1 ''b'' 0]" all_fail Network]
  by (simp add: flush_def grouped_of_def flush_group_def send_group_def sendToBackend_def
      requeue_def requeue_one_def maxRetries_def queue_ok_def refs_of_def Let_def
      veto_all_def all_fail_def queue_of_def item_of_def)

text \<open>
  C8 as it is stated fails: the hook vetoes the payload of the entry \<open>a\<close> alone, the
  request of the entry \<open>b\<close> of the same category fails, and the flush pushes both back,
  the vetoed entry too, with count 1.
\<close>

theorem beforeSend_veto_counterexample:
  "result (sendToBackend \<lparr>beforeSend = Some veto_a, enrich = id\<rparr> True
            ''/v1/rum/network-requests'' (Single ''a'')) = Skipped \<and>
   queue (flush \<lparr>beforeSend = Some veto_a, enrich = id\<rparr> all_fail
            (queue_of [item_of Network 0 ''a'' 0, item_of Network 1 ''b'' 0])) =
     [item_of Network 0 ''a'' 1, item_of Network 1 ''b'' 1]"
  by (simp add: flush_def grouped_of_def flush_group_def send_group_def sendToBackend_def
      requeue_def requeue_one_def maxRetries_def Let_def veto_a_def all_fail_def queue_of_def
      item_of_def)

section \<open>The claims about the gesture classifier\<close>

text \<open>
  C2, as the code has it. Touch tracking is on, the sampling rate is 1, and no timeout
  of an earlier touch-down is pending. A touch goes down at \<open>(x0, y0)\<close> at time \<open>t0\<close>;
  then comes any run of calls other than touch-downs and touch-ups in which the
  runtime runs the timeout of this touch; then the touch goes up at \<open>(x, y)\<close> at a time
  \<open>t2\<close> with \<open>t2 - t0 \<ge> 500\<close>. The touch-down records nothing; among the touches
  recorded while the touch is held there is exactly one \<open>longPress\<close>, and it is at
  \<open>(x0, y0)\<close>; the touch-up records no tap: it records one \<open>swipe\<close> when the
  distance is at least 50 and distance over duration at least 0.3, both as the code
  computes them in double arithmetic, and nothing otherwise.
\<close>

theorem longPress_then_touchEnd:
  assumes "trackTouches cfg" and "sampling_of cfg = 1" and "timers st = []"
    and "list_all (\<lambda>ev. \<not> is_touch ev \<and> draw_below_1 ev) evs"
    and "list_ex (fires (nextTimer st)) evs"
    and "rand2 < 1" and "LONG_PRESS_DURATION \<le> t2 - t0"
  shows "let st1 = onTouchStart cfg t0 x0 y0 force st;
             st2 = hm_run cfg evs st1;
             st3 = onTouchEnd cfg rand2 t2 x y st2;
             dx = js_sub x x0;
             dy = js_sub y y0;
             distance = js_sqrt (js_add (js_mul dx dx) (js_mul dy dy));
             is_swipe = (val distance \<ge> 50 \<and>
                         val (js_over distance (t2 - t0)) \<ge> val (dbl (3 / 10)))
         in touches st1 = touches st \<and>
            (\<exists>new l. touches st2 = touches st @ new \<and> longPresses new = [l] \<and>
                 td_x l = x0 \<and> td_y l = y0) \<and>
            (is_swipe \<longrightarrow> (\<exists>s. touches st3 = touches st2 @ [s] \<and> td_type s = Swipe)) \<and>
            (\<not> is_swipe \<longrightarrow> touches st3 = touches st2)"
proof -
  let ?st1 = "onTouchStart cfg t0 x0 y0 force st"
  let ?p = "\<lparr>tp_x = x0, tp_y = y0, tp_timestamp = t0, tp_force = force\<rparr>"
  let ?st2 = "hm_run cfg evs ?st1"
  let ?h = "nextTimer st"
  let ?dist = "js_sqrt (js_add (js_mul (js_sub x x0) (js_sub x x0)) (js_mul (js_sub y y0) (js_sub y y0)))"
  note s1 = onTouchStart_facts [OF assms(1), where ?t0.0 = t0 and ?x0.0 = x0 and ?y0.0 = y0
      and force = force and st = st]
  have tm: "timers ?st1 = [?h]"
    using assms(1,3) by (simp add: timers_onTouchStart)
  then have sub: "set (timers ?st1) \<subseteq> {?h}" and mem: "?h \<in> set (timers ?st1)" by simp_all
  from held_run [OF assms(2) s1(2) assms(4) sub] mem assms(5)
  have p2: "touchStartPoint ?st2 = Some ?p" and t2: "touchStartTime ?st2 = t0"
    and new: "\<exists>new l. touches ?st2 = touches ?st1 @ new \<and> longPresses new = [l] \<and>
        td_x l = x0 \<and> td_y l = y0"
    by (auto simp: s1(3))
  from assms(7) have d: "\<not> t2 - t0 < 500" "t2 - t0 \<noteq> 0"
    by (simp_all add: LONG_PRESS_DURATION_def)
  from assms(2,6) have r2: "rand2 \<le> sampling_of cfg" by simp
  note c = classification_aux [OF assms(1) p2 r2 refl refl refl refl,
      where x = x and y = y and now = t2, unfolded t2 TouchPoint.simps]
  have a: "touches ?st1 = touches st" by (rule s1(1))
  have b: "\<exists>new l. touches ?st2 = touches st @ new \<and> longPresses new = [l] \<and>
        td_x l = x0 \<and> td_y l = y0"
    using new unfolding a .
  have e: "\<exists>s. touches (onTouchEnd cfg rand2 t2 x y ?st2) = touches ?st2 @ [s] \<and> td_type s = Swipe"
    if "val ?dist \<ge> 50 \<and> val (js_over ?dist (t2 - t0)) \<ge> val (dbl (3 / 10))"
    using c(2) that d by blast
  have f: "touches (onTouchEnd cfg rand2 t2 x y ?st2) = touches ?st2"
    if "\<not> (val ?dist \<ge> 50 \<and> val (js_over ?dist (t2 - t0)) \<ge> val (dbl (3 / 10)))"
    using c(3) that d by blast
  from a b e f show ?thesis unfolding Let_def by blast
qed

text \<open>
  Two instances: after the long press at the origin, a touch-up 500 pixels away at
  time 600 adds a swipe, and a touch-up 5 pixels away adds nothing.
\<close>

theorem longPress_then_touchEnd_witness:
  "trackTouches track_all \<and> sampling_of track_all = 1 \<and> timers collector_init = [] \<and>
   list_all (\<lambda>ev. \<not> is_touch ev \<and> draw_below_1 ev) [TimerFires 0 500 1] \<and>
   list_ex (fires (nextTimer collector_init)) [TimerFires 0 500 1] \<and>
   (0::real) < 1 \<and> LONG_PRESS_DURATION \<le> 600 - 0 \<and>
   (\<exists>new l. touches long_pressed = touches collector_init @ new \<and> longPresses new = [l] \<and>
        td_x l = dbl 0 \<and> td_y l = dbl 0) \<and>
   (\<exists>s. touches (onTouchEnd track_all 0 600 (dbl 300) (dbl 400) long_pressed) =
          touches long_pressed @ [s] \<and> td_type s = Swipe) \<and>
   touches (onTouchEnd track_all 0 600 (dbl 3) (dbl 4) long_pressed) = touches long_pressed"
proof -
  have v: "val (dbl (3 / 10)) \<le> val (js_over a 600)" if "val a = 500" for a
    using velocity_ge [of a 600] that by simp
  have h: "trackTouches track_all" "sampling_of track_all = 1" "timers collector_init = []"
    "list_all (\<lambda>ev. \<not> is_touch ev \<and> draw_below_1 ev) [TimerFires 0 500 1]"
    "list_ex (fires (nextTimer collector_init)) [TimerFires 0 500 1]"
    "(0::real) < 1" "LONG_PRESS_DURATION \<le> 600 - 0"
    by (simp_all add: track_all_simps collector_init_def LONG_PRESS_DURATION_def)
  note A = longPress_then_touchEnd [OF h, where ?x0.0 = "dbl 0" and ?y0.0 = "dbl 0"
      and force = None and x = "dbl 300" and y = "dbl 400"]
  note B = longPress_then_touchEnd [OF h, where ?x0.0 = "dbl 0" and ?y0.0 = "dbl 0"
      and force = None and x = "dbl 3" and y = "dbl 4"]
  from A B h show ?thesis
    unfolding Let_def pressed_def [symmetric] long_pressed_run
    by (simp add: distance_300_400 distance_3_4 v)
qed

text \<open>
  C2 as it is stated fails. The touch is held at the origin from time 0, the timeout
  runs at time 500 and records the long press, and the touch-up at \<open>(300, 400)\<close> at
  time 600 records a second touch, a swipe. When a second touch goes down at \<open>(2, 2)\<close>
  before the first has gone up, the timeouts of both run and record two long presses,
  both at \<open>(2, 2)\<close>. And with a sampling rate of one half and a draw of 0.7, the
  timeout of a held touch records nothing.
\<close>

theorem longPress_then_swipe_counterexample:
  "map td_type (touches long_pressed) = [LongPress] \<and>
   map td_type (touches (onTouchEnd track_all 0 600 (dbl 300) (dbl 400) long_pressed)) =
     [LongPress, Swipe] \<and>
   map (\<lambda>t. (td_type t, td_x t, td_y t))
     (touches (timer_fires track_all 0 510 2 (timer_fires track_all 0 500 1 pressed_twice))) =
     [(LongPress, dbl 2, dbl 2), (LongPress, dbl 2, dbl 2)] \<and>
   touches (timer_fires half_sampled (7 / 10) 500 1 pressed) = []"
proof -
  have h: "Suc 0 \<in> set (timers pressed)"
    by (simp add: pressed_def onTouchStart_def track_all_def collector_init_def)
  note tf = timer_fires_facts [OF h pressed_point(1), where cfg = track_all and rand = 0 and now = 500]
  have lp: "touchStartPoint long_pressed =
        Some \<lparr>tp_x = dbl 0, tp_y = dbl 0, tp_timestamp = 0, tp_force = None\<rparr>"
      "touchStartTime long_pressed = 0" "map td_type (touches long_pressed) = [LongPress]"
    unfolding long_pressed_def
    by (simp_all add: tf pressed_point track_all_simps touchData_of_def)
  have hs: "touches (timer_fires half_sampled (7 / 10) 500 (Suc 0) pressed) = []"
    using timer_fires_facts(1) [OF h pressed_point(1), where cfg = half_sampled and rand = "7 / 10"
        and now = 500]
    by (simp add: half_sampled_simps pressed_point)
  have v: "fl (3 / 10) \<le> val (js_over (js_sqrt (js_add (js_mul (js_sub (dbl 300) (dbl 0)) (js_sub (dbl 300) (dbl 0)))
                        (js_mul (js_sub (dbl 400) (dbl 0)) (js_sub (dbl 400) (dbl 0))))) 600)"
    using velocity_ge [of "js_sqrt (js_add (js_mul (js_sub (dbl 300) (dbl 0)) (js_sub (dbl 300) (dbl 0)))
                        (js_mul (js_sub (dbl 400) (dbl 0)) (js_sub (dbl 400) (dbl 0))))" 600]
    by (simp add: distance_300_400 val_dbl)
  have sw: "map td_type (touches (onTouchEnd track_all 0 600 (dbl 300) (dbl 400) long_pressed)) =
     [LongPress, Swipe]"
    by (simp add: touches_onTouchEnd [OF track_all_simps(1) lp(1)] lp Let_def track_all_simps
        distance_300_400 v js_ge_divide SWIPE_THRESHOLD_def SWIPE_VELOCITY_THRESHOLD_def
        LONG_PRESS_DURATION_def touchData_of_def val_dbl fl_numeral)
  have p2: "touchStartPoint pressed_twice =
        Some \<lparr>tp_x = dbl 2, tp_y = dbl 2, tp_timestamp = 10, tp_force = None\<rparr>"
      "timers pressed_twice = [Suc 0, Suc (Suc 0)]" "touches pressed_twice = []"
    by (simp_all add: pressed_twice_def pressed_def onTouchStart_def track_all_def
        collector_init_def touches_def touches_of_def)
  have m1: "Suc 0 \<in> set (timers pressed_twice)" by (simp add: p2)
  note f1 = timer_fires_facts [OF m1 p2(1), where cfg = track_all and rand = 0 and now = 500]
    timers_timer_fires [OF m1, where cfg = track_all and rand = 0 and now = 500]
  have m2: "Suc (Suc 0) \<in> set (timers (timer_fires track_all 0 500 (Suc 0) pressed_twice))"
    by (simp add: f1 p2)
  note f2 = timer_fires_facts(1) [OF m2 f1(2), where cfg = track_all and rand = 0 and now = 510]
  have two: "map (\<lambda>t. (td_type t, td_x t, td_y t))
     (touches (timer_fires track_all 0 510 (Suc (Suc 0)) (timer_fires track_all 0 500 (Suc 0) pressed_twice))) =
     [(LongPress, dbl 2, dbl 2), (LongPress, dbl 2, dbl 2)]"
    by (simp add: f2 f1 p2 track_all_simps touchData_of_def)
  have n2: "(2::nat) = Suc (Suc 0)" by simp
  from lp(3) sw two hs show ?thesis by (simp add: n2)
qed

text \<open>
  C4, as the code has it. The depth \<open>onScroll\<close> computes is 100 when the content is
  not higher than the viewport. Otherwise it is
  \<open>Math.round((scrollY / (contentHeight - viewportHeight)) * 100)\<close> capped at 100,
  where the difference, the quotient and the product are each rounded to a double, in
  this order, and there is no lower bound; whenever \<open>scrollY\<close> is not negative the
  depth is not negative either. It never exceeds 100.
\<close>

theorem scrollDepth_formula:
  "(val contentHeight \<le> val viewportHeight \<longrightarrow>
      scrollDepth_of scrollY contentHeight viewportHeight = 100) \<and>
   (val viewportHeight < val contentHeight \<longrightarrow>
      scrollDepth_of scrollY contentHeight viewportHeight =
        min 100 (round (val (js_mul (js_quot scrollY (js_sub contentHeight viewportHeight))
                                    (dbl 100))))) \<and>
   (val viewportHeight < val contentHeight \<and> 0 \<le> val scrollY \<longrightarrow>
      scrollDepth_of scrollY contentHeight viewportHeight =
        max 0 (min 100 (round (val (js_mul (js_quot scrollY (js_sub contentHeight viewportHeight))
                                           (dbl 100)))))) \<and>
   scrollDepth_of scrollY contentHeight viewportHeight \<le> 100"
proof -
  let ?m = "js_sub contentHeight viewportHeight"
  have "0 \<le> round (val (js_mul (js_quot scrollY ?m) (dbl 100)))"
    if "val viewportHeight < val contentHeight" "0 \<le> val scrollY"
  proof -
    from that(1) have "0 < val ?m" by (simp add: js_sub_pos)
    with that(2) have "0 \<le> val scrollY / val ?m" by simp
    then have "0 \<le> fl (val scrollY / val ?m)" by (rule fl_nonneg)
    then have "0 \<le> fl (val scrollY / val ?m) * 100" by simp
    then have "0 \<le> fl (fl (val scrollY / val ?m) * 100)" by (rule fl_nonneg)
    then have "0 \<le> val (js_mul (js_quot scrollY ?m) (dbl 100))"
      by (simp add: js_mul_def js_quot_def val_dbl fl_numeral)
    from round_mono [OF this] show ?thesis by simp
  qed
  then show ?thesis by (auto simp: scrollDepth_of_def Let_def js_sub_pos)
qed

text \<open>
  Three instances: content lower than the viewport, a scroll half way down, and a
  scroll beyond the end.
\<close>

theorem scrollDepth_formula_witness:
  "val (dbl 100) \<le> val (dbl 200) \<and> scrollDepth_of (dbl 10) (dbl 100) (dbl 200) = 100 \<and>
   val (dbl 100) < val (dbl 200) \<and> 0 \<le> val (dbl 50) \<and>
   scrollDepth_of (dbl 50) (dbl 200) (dbl 100) = 50 \<and>
   scrollDepth_of (dbl 250) (dbl 200) (dbl 100) = 100"
  using scrollDepth_formula [where scrollY = "dbl 10" and contentHeight = "dbl 100"
      and viewportHeight = "dbl 200"]
    scrollDepth_formula [where scrollY = "dbl 50" and contentHeight = "dbl 200"
      and viewportHeight = "dbl 100"]
    scrollDepth_formula [where scrollY = "dbl 250" and contentHeight = "dbl 200"
      and viewportHeight = "dbl 100"]
  by (simp add: depth_values val_dbl fl_simps)

text \<open>
  C4 as it is stated fails. For \<open>onScroll(29, 300, 100)\<close> the code computes the depth
  14, and puts it into the scroll record: the quotient \<open>29 / 200\<close> is rounded to a
  double below 0.145, and its product with 100 to the double next below 14.5. The
  stated \<open>round(100 * scrollY / (contentHeight - viewportHeight))\<close> is 15, over the
  reals and over the doubles alike, as \<open>2900 / 200\<close> is 14.5 exactly. And for
  \<open>scrollY = -50\<close> over a scroll range of 100 the code computes the depth -50, where
  the clamp to [0, 100] gives 0.
\<close>

theorem scrollDepth_rounding_counterexample:
  "scrollDepth_of (dbl 29) (dbl 300) (dbl 100) = 14 \<and>
   map sd_scrollDepth (scrolls (onScroll track_all 0 (dbl 29) (dbl 300) (dbl 100) home_screen)) = [14] \<and>
   max 0 (min 100 (round (100 * 29 / (300 - 100 :: real)))) = (15 :: int) \<and>
   max 0 (min 100 (round (val (js_quot (js_mul (dbl 100) (dbl 29)) (js_sub (dbl 300) (dbl 100)))))) =
     (15 :: int) \<and>
   scrollDepth_of (dbl (- 50)) (dbl 200) (dbl 100) = - 50 \<and>
   max 0 (min 100 (round (100 * (- 50) / (200 - 100 :: real)))) = (0 :: int)"
proof -
  have 1: "fl (29 / 2) = 29 / 2" using fl_dyadic [of 29 "- 1"] by simp
  have 2: "round (29 / 2 :: real) = 15" by (simp add: round_def)
  have 3: "map sd_scrollDepth (scrolls (onScroll track_all 0 (dbl 29) (dbl 300) (dbl 100) home_screen)) = [14]"
    by (simp add: scrolls_onScroll depth_29 track_all_simps home_screen_simps)
       (simp add: scrolls_def scrolls_of_def home_screen_def setCurrentScreen_def collector_init_def)
  show ?thesis
    by (simp add: depth_29 depth_values 3 js_ops fl_simps 1 2)
qed

text \<open>
  C5. Touch tracking is on, the sampling rate is 1, and a touch with start point \<open>p\<close> is
  active. With \<open>dx\<close>, \<open>dy\<close>, the distance and the duration \<open>d\<close> as the code computes
  them, in double arithmetic, \<open>onTouchEnd\<close> records one tap at the start point when
  the distance is below 10 and \<open>d\<close> below 500; otherwise one swipe at the start point
  when the distance is at least 50 and the velocity at least the double 0.3, its
  direction right or left by the sign of \<open>dx\<close> when \<open>|dx| > |dy|\<close> and down or up by
  the sign of \<open>dy\<close> otherwise; otherwise nothing. The velocity is the quotient
  \<open>distance / d\<close> of JavaScript, which for \<open>d = 0\<close> and a positive distance is
  \<open>Infinity\<close>. The touch is no longer active afterwards.
\<close>

theorem onTouchEnd_classification:
  assumes "trackTouches cfg" and "touchStartPoint st = Some p"
    and "sampling_of cfg = 1" and "rand < 1"
  shows "let dx = js_sub x (tp_x p);
             dy = js_sub y (tp_y p);
             distance = js_sqrt (js_add (js_mul dx dx) (js_mul dy dy));
             d = now - touchStartTime st;
             is_tap = (val distance < 10 \<and> d < 500);
             is_swipe = (val distance \<ge> 50 \<and>
                         (d = 0 \<or> val (js_over distance d) \<ge> val (dbl (3 / 10))));
             st' = onTouchEnd cfg rand now x y st
         in (is_tap \<longrightarrow>
               (\<exists>t. touches st' = touches st @ [t] \<and> td_type t = Tap \<and>
                    td_x t = tp_x p \<and> td_y t = tp_y p)) \<and>
            (\<not> is_tap \<and> is_swipe \<longrightarrow>
               (\<exists>t. touches st' = touches st @ [t] \<and> td_type t = Swipe \<and>
                    td_x t = tp_x p \<and> td_y t = tp_y p \<and>
                    ex_direction (td_extra t) =
                      Some (if \<bar>val dx\<bar> > \<bar>val dy\<bar> then (if val dx > 0 then Right else Left)
                            else (if val dy > 0 then Down else Up)))) \<and>
            (\<not> is_tap \<and> \<not> is_swipe \<longrightarrow> touches st' = touches st) \<and>
            touchStartPoint st' = None"
proof -
  from assms(3,4) have "rand \<le> sampling_of cfg" by simp
  note aux = classification_aux [OF assms(1,2) this refl refl refl refl, of x y now]
  have g: "getSwipeDirection dx dy =
      (if \<bar>val dx\<bar> > \<bar>val dy\<bar> then (if val dx > 0 then Right else Left)
       else (if val dy > 0 then Down else Up))"
    for dx dy by (simp add: getSwipeDirection_def Let_def)
  show ?thesis
    unfolding Let_def
    by (intro conjI impI)
      (rule aux(1), assumption, (rule aux(2) [unfolded g]; blast), (rule aux(3); blast),
       rule touchStartPoint_onTouchEnd [OF assms(1)])
qed

text \<open>
  Three instances from a touch held at the origin since time 0: up at \<open>(3, 4)\<close> at
  time 50 is a tap, up at \<open>(100, 0)\<close> at time 200 a swipe to the right, up at
  \<open>(20, 0)\<close> at time 400 nothing.
\<close>

theorem onTouchEnd_classification_witness:
  "trackTouches track_all \<and>
   touchStartPoint pressed = Some \<lparr>tp_x = dbl 0, tp_y = dbl 0, tp_timestamp = 0, tp_force = None\<rparr> \<and>
   sampling_of track_all = 1 \<and> (0::real) < 1 \<and>
   (\<exists>t. touches (onTouchEnd track_all 0 50 (dbl 3) (dbl 4) pressed) = touches pressed @ [t] \<and>
        td_type t = Tap \<and> td_x t = dbl 0 \<and> td_y t = dbl 0) \<and>
   (\<exists>t. touches (onTouchEnd track_all 0 200 (dbl 100) (dbl 0) pressed) = touches pressed @ [t] \<and>
        td_type t = Swipe \<and> td_x t = dbl 0 \<and> td_y t = dbl 0 \<and>
        ex_direction (td_extra t) = Some Right) \<and>
   touches (onTouchEnd track_all 0 400 (dbl 20) (dbl 0) pressed) = touches pressed"
  using onTouchEnd_classification [where cfg = track_all and st = pressed
      and p = "\<lparr>tp_x = dbl 0, tp_y = dbl 0, tp_timestamp = 0, tp_force = None\<rparr>"
      and rand = 0 and x = "dbl 3" and y = "dbl 4" and now = 50]
    onTouchEnd_classification [where cfg = track_all and st = pressed
      and p = "\<lparr>tp_x = dbl 0, tp_y = dbl 0, tp_timestamp = 0, tp_force = None\<rparr>"
      and rand = 0 and x = "dbl 100" and y = "dbl 0" and now = 200]
    onTouchEnd_classification [where cfg = track_all and st = pressed
      and p = "\<lparr>tp_x = dbl 0, tp_y = dbl 0, tp_timestamp = 0, tp_force = None\<rparr>"
      and rand = 0 and x = "dbl 20" and y = "dbl 0" and now = 400]
  by (simp add: pressed_point track_all_simps Let_def js_ops fl_simps sqrt_squares fl_threshold)

text \<open>
  C6. With scroll tracking on, \<open>onScroll\<close> adds one scroll record, with the computed
  depth and the current screen, exactly when the depth is above the current screen's
  high-water mark, and then the mark is that depth; otherwise it adds no record and
  the mark stays. The marks of the other screens stay. Over any run of calls that does
  not call \<open>setCurrentScreen\<close> for a screen, the mark of that screen never goes down.
\<close>

theorem scroll_high_water_mark:
  assumes "trackScrolls cfg"
  shows "(scrollDepth_of scrollY ch vh > previousMax_of st (currentScreen st) \<longrightarrow>
      (\<exists>r. scrolls (onScroll cfg now scrollY ch vh st) = scrolls st @ [r] \<and>
           sd_scrollDepth r = scrollDepth_of scrollY ch vh \<and>
           sd_screenName r = currentScreen st) \<and>
      previousMax_of (onScroll cfg now scrollY ch vh st) (currentScreen st) =
        scrollDepth_of scrollY ch vh) \<and>
    (\<not> scrollDepth_of scrollY ch vh > previousMax_of st (currentScreen st) \<longrightarrow>
      scrolls (onScroll cfg now scrollY ch vh st) = scrolls st \<and>
      previousMax_of (onScroll cfg now scrollY ch vh st) (currentScreen st) =
        previousMax_of st (currentScreen st)) \<and>
    (\<forall>s. s \<noteq> currentScreen st \<longrightarrow>
      previousMax_of (onScroll cfg now scrollY ch vh st) s = previousMax_of st s) \<and>
    (\<forall>s evs. (\<forall>ev \<in> set evs. ev \<noteq> SetCurrentScreen s) \<longrightarrow>
      previousMax_of st s \<le> previousMax_of (hm_run cfg evs st) s)"
  using assms run_mark_mono [of _ _ st cfg]
  by (simp add: previousMax_onScroll scrolls_onScroll list_all_iff)

text \<open>
  Instances on the screen \<open>home\<close> with mark 0: a scroll to depth 50 adds a record and
  raises the mark to 50, a scroll to depth 0 adds nothing, the mark of another screen
  stays, and the mark of \<open>home\<close> does not go down over a run that activates another
  screen only.
\<close>

theorem scroll_high_water_mark_witness:
  "trackScrolls track_all \<and>
   scrollDepth_of (dbl 50) (dbl 200) (dbl 100) > previousMax_of home_screen (currentScreen home_screen) \<and>
   (\<exists>r. scrolls (onScroll track_all 0 (dbl 50) (dbl 200) (dbl 100) home_screen) =
          scrolls home_screen @ [r] \<and>
        sd_scrollDepth r = 50 \<and> sd_screenName r = ''home'') \<and>
   previousMax_of (onScroll track_all 0 (dbl 50) (dbl 200) (dbl 100) home_screen) ''home'' = 50 \<and>
   \<not> scrollDepth_of (dbl 0) (dbl 200) (dbl 100) > previousMax_of home_screen (currentScreen home_screen) \<and>
   scrolls (onScroll track_all 0 (dbl 0) (dbl 200) (dbl 100) home_screen) = scrolls home_screen \<and>
   ''other'' \<noteq> currentScreen home_screen \<and>
   previousMax_of (onScroll track_all 0 (dbl 50) (dbl 200) (dbl 100) home_screen) ''other'' =
     previousMax_of home_screen ''other'' \<and>
   previousMax_of home_screen ''home'' \<le>
     previousMax_of (hm_run track_all
        [Scroll 0 (dbl 50) (dbl 200) (dbl 100), Scroll 1 (dbl 30) (dbl 200) (dbl 100),
         SetCurrentScreen ''other'']
        home_screen) ''home''"
proof -
  note d = depth_values(2,4)
  note T = scroll_high_water_mark [OF track_all_simps(2), where scrollY = "dbl 50" and ch = "dbl 200"
      and vh = "dbl 100" and st = home_screen and now = 0]
  from T have R: "(\<forall>ev \<in> set evs. ev \<noteq> SetCurrentScreen s) \<Longrightarrow>
      previousMax_of home_screen s \<le> previousMax_of (hm_run track_all evs home_screen) s" for s evs
    by blast
  have 0: "previousMax_of home_screen ''home'' \<le>
     previousMax_of (hm_run track_all
        [Scroll 0 (dbl 50) (dbl 200) (dbl 100), Scroll 1 (dbl 30) (dbl 200) (dbl 100),
         SetCurrentScreen ''other'']
        home_screen) ''home''"
    by (rule R) simp
  from T have 1: "(\<exists>r. scrolls (onScroll track_all 0 (dbl 50) (dbl 200) (dbl 100) home_screen) =
          scrolls home_screen @ [r] \<and>
        sd_scrollDepth r = 50 \<and> sd_screenName r = ''home'') \<and>
     previousMax_of (onScroll track_all 0 (dbl 50) (dbl 200) (dbl 100) home_screen) ''home'' = 50 \<and>
     previousMax_of (onScroll track_all 0 (dbl 50) (dbl 200) (dbl 100) home_screen) ''other'' =
       previousMax_of home_screen ''other''"
    by (simp add: d home_screen_simps)
  from scroll_high_water_mark [OF track_all_simps(2), where scrollY = "dbl 0" and ch = "dbl 200"
      and vh = "dbl 100" and st = home_screen and now = 0]
  have 2: "scrolls (onScroll track_all 0 (dbl 0) (dbl 200) (dbl 100) home_screen) = scrolls home_screen"
    by (simp add: d home_screen_simps)
  from 0 1 2 show ?thesis by (simp add: d home_screen_simps track_all_simps)
qed

text \<open>
  C7. \<open>setCurrentScreen s\<close> sets the entry of \<open>s\<close> in the scroll-depth table to 0, so
  that the mark of \<open>s\<close> is 0, and leaves the entry and the mark of every other screen
  as they were.
\<close>

theorem setCurrentScreen_resets:
  "maxScrollDepth (setCurrentScreen s st) s = Some 0 \<and>
   previousMax_of (setCurrentScreen s st) s = 0 \<and>
   (\<forall>s'. s' \<noteq> s \<longrightarrow> maxScrollDepth (setCurrentScreen s st) s' = maxScrollDepth st s' \<and>
        previousMax_of (setCurrentScreen s st) s' = previousMax_of st s')"
  by (simp add: setCurrentScreen_def previousMax_of_def)

text \<open>An instance: with marks 40 for \<open>a\<close> and 70 for \<open>b\<close>, activating \<open>a\<close> leaves 0 and 70.\<close>

theorem setCurrentScreen_resets_witness:
  "''b'' \<noteq> ''a'' \<and> maxScrollDepth two_screens ''a'' = Some 40 \<and>
   maxScrollDepth (setCurrentScreen ''a'' two_screens) ''a'' = Some 0 \<and>
   maxScrollDepth (setCurrentScreen ''a'' two_screens) ''b'' = Some 70"
  using setCurrentScreen_resets [where s = "''a''" and st = two_screens]
  by (simp add: two_screens_def)

text \<open>
  C9. When no touch is active, \<open>onTouchEnd\<close> records nothing and leaves the touch
  queue, the scroll queue, the records handed to the transport and the scroll-depth
  table as they were: the state changes in the timeout handle and the pending
  timeouts at most, and with touch tracking on the handle is cleared and its timeout
  cancelled.
\<close>

theorem idle_touchEnd_only_cancels:
  assumes "touchStartPoint st = None"
  shows "onTouchEnd cfg rand now x y st = (if trackTouches cfg then cancel_timeout st else st) \<and>
    touches (onTouchEnd cfg rand now x y st) = touches st \<and>
    scrolls (onTouchEnd cfg rand now x y st) = scrolls st \<and>
    touchQueue (onTouchEnd cfg rand now x y st) = touchQueue st \<and>
    scrollQueue (onTouchEnd cfg rand now x y st) = scrollQueue st \<and>
    sent (onTouchEnd cfg rand now x y st) = sent st \<and>
    maxScrollDepth (onTouchEnd cfg rand now x y st) = maxScrollDepth st \<and>
    onTouchEnd cfg rand now x y st =
      st\<lparr>timers := timers (onTouchEnd cfg rand now x y st),
         longPressTimeout := longPressTimeout (onTouchEnd cfg rand now x y st)\<rparr> \<and>
    (trackTouches cfg \<longrightarrow> longPressTimeout (onTouchEnd cfg rand now x y st) = None \<and>
       timers (onTouchEnd cfg rand now x y st) =
         (case longPressTimeout st of Some h \<Rightarrow> removeAll h (timers st) | None \<Rightarrow> timers st))"
  using assms
  by (simp add: onTouchEnd_when_idle cancel_timeout_def touches_def scrolls_def split: option.splits)

text \<open>An instance: a touch-up on the fresh collector changes nothing.\<close>

theorem idle_touchEnd_only_cancels_witness:
  "touchStartPoint collector_init = None \<and> trackTouches track_all \<and>
   onTouchEnd track_all 0 10 (dbl 5) (dbl 5) collector_init = collector_init"
  using idle_touchEnd_only_cancels [where st = collector_init and cfg = track_all and rand = 0
      and now = 10 and x = "dbl 5" and y = "dbl 5"]
  by (simp add: collector_init_def track_all_simps cancel_timeout_def)

text \<open>
  C10. Touch tracking is on and a touch with start point \<open>p\<close> is active. When the
  touch-up qualifies as a swipe, by the distance and the velocity the code computes,
  and \<open>|dx| = |dy|\<close> for the \<open>dx\<close> and \<open>dy\<close> the code computes, \<open>getSwipeDirection\<close>
  gives down if \<open>dy > 0\<close> and up otherwise, and this is the direction of the swipe
  recorded; the swipe is recorded unless the sampling draw suppresses it, and then
  nothing is recorded.
\<close>

theorem swipe_tie_vertical:
  assumes "trackTouches cfg" and "touchStartPoint st = Some p"
    and tie: "\<bar>val (js_sub x (tp_x p))\<bar> = \<bar>val (js_sub y (tp_y p))\<bar>"
    and not_tap: "\<not> (val (js_sqrt (js_add
                       (js_mul (js_sub x (tp_x p)) (js_sub x (tp_x p)))
                       (js_mul (js_sub y (tp_y p)) (js_sub y (tp_y p))))) < 10 \<and>
                     now - touchStartTime st < 500)"
    and swipe: "val (js_sqrt (js_add
                       (js_mul (js_sub x (tp_x p)) (js_sub x (tp_x p)))
                       (js_mul (js_sub y (tp_y p)) (js_sub y (tp_y p))))) \<ge> 50 \<and>
                (now - touchStartTime st = 0 \<or>
                 val (js_over (js_sqrt (js_add
                       (js_mul (js_sub x (tp_x p)) (js_sub x (tp_x p)))
                       (js_mul (js_sub y (tp_y p)) (js_sub y (tp_y p)))))
                     (now - touchStartTime st)) \<ge> val (dbl (3 / 10)))"
  shows "getSwipeDirection (js_sub x (tp_x p)) (js_sub y (tp_y p)) =
           (if val (js_sub y (tp_y p)) > 0 then Down else Up) \<and>
    (rand \<le> sampling_of cfg \<longrightarrow>
       (\<exists>t. touches (onTouchEnd cfg rand now x y st) = touches st @ [t] \<and> td_type t = Swipe \<and>
            ex_direction (td_extra t) = Some (if val (js_sub y (tp_y p)) > 0 then Down else Up))) \<and>
    (rand > sampling_of cfg \<longrightarrow> touches (onTouchEnd cfg rand now x y st) = touches st)"
proof -
  from tie have g: "getSwipeDirection (js_sub x (tp_x p)) (js_sub y (tp_y p)) =
      (if val (js_sub y (tp_y p)) > 0 then Down else Up)"
    by (simp add: getSwipeDirection_def Let_def)
  have "\<exists>t. touches (onTouchEnd cfg rand now x y st) = touches st @ [t] \<and> td_type t = Swipe \<and>
            ex_direction (td_extra t) = Some (if val (js_sub y (tp_y p)) > 0 then Down else Up)"
    if "rand \<le> sampling_of cfg"
    using classification_aux(2) [OF assms(1,2) that refl refl refl refl not_tap swipe]
    unfolding g by blast
  moreover have "touches (onTouchEnd cfg rand now x y st) = touches st" if "rand > sampling_of cfg"
    using assms(1,2) that by (rule touches_onTouchEnd_sampled_out)
  ultimately show ?thesis using g by blast
qed

text \<open>
  Two instances: from the origin to \<open>(60, -60)\<close> in 100 ms is a swipe upwards, and
  with a sampling rate of one half and a draw of 0.7 it is not recorded.
\<close>

theorem swipe_tie_vertical_witness:
  "trackTouches track_all \<and>
   touchStartPoint pressed = Some \<lparr>tp_x = dbl 0, tp_y = dbl 0, tp_timestamp = 0, tp_force = None\<rparr> \<and>
   \<bar>val (js_sub (dbl 60) (dbl 0))\<bar> = \<bar>val (js_sub (dbl (- 60)) (dbl 0))\<bar> \<and>
   (0::real) \<le> sampling_of track_all \<and>
   (\<exists>t. touches (onTouchEnd track_all 0 100 (dbl 60) (dbl (- 60)) pressed) = touches pressed @ [t] \<and>
        td_type t = Swipe \<and> ex_direction (td_extra t) = Some Up) \<and>
   trackTouches half_sampled \<and> 7 / 10 > sampling_of half_sampled \<and>
   touches (onTouchEnd half_sampled (7 / 10) 100 (dbl 60) (dbl (- 60)) pressed) = touches pressed"
proof -
  let ?p = "\<lparr>tp_x = dbl 0, tp_y = dbl 0, tp_timestamp = 0, tp_force = None\<rparr>"
  let ?D = "js_sqrt (js_add (js_mul (js_sub (dbl 60) (dbl 0)) (js_sub (dbl 60) (dbl 0)))
                        (js_mul (js_sub (dbl (- 60)) (dbl 0)) (js_sub (dbl (- 60)) (dbl 0))))"
  have tie: "\<bar>val (js_sub (dbl 60) (tp_x ?p))\<bar> = \<bar>val (js_sub (dbl (- 60)) (tp_y ?p))\<bar>"
    by (simp add: js_ops fl_simps)
  have neg: "\<not> 0 < val (js_sub (dbl (- 60)) (dbl 0))" by (simp add: js_ops fl_simps)
  have v: "val (dbl (3 / 10)) \<le> val (js_over ?D 100)"
    by (rule velocity_ge) (use distance_60_60 in simp)
  have nt: "\<not> (val (js_sqrt (js_add
                       (js_mul (js_sub (dbl 60) (tp_x ?p)) (js_sub (dbl 60) (tp_x ?p)))
                       (js_mul (js_sub (dbl (- 60)) (tp_y ?p)) (js_sub (dbl (- 60)) (tp_y ?p))))) < 10 \<and>
                     100 - touchStartTime pressed < 500)"
    using distance_60_60 by simp
  have sw: "val (js_sqrt (js_add
                       (js_mul (js_sub (dbl 60) (tp_x ?p)) (js_sub (dbl 60) (tp_x ?p)))
                       (js_mul (js_sub (dbl (- 60)) (tp_y ?p)) (js_sub (dbl (- 60)) (tp_y ?p))))) \<ge> 50 \<and>
                (100 - touchStartTime pressed = 0 \<or>
                 val (js_over (js_sqrt (js_add
                       (js_mul (js_sub (dbl 60) (tp_x ?p)) (js_sub (dbl 60) (tp_x ?p)))
                       (js_mul (js_sub (dbl (- 60)) (tp_y ?p)) (js_sub (dbl (- 60)) (tp_y ?p)))))
                     (100 - touchStartTime pressed)) \<ge> val (dbl (3 / 10)))"
    using distance_60_60 v by (simp add: pressed_point)
  note A = swipe_tie_vertical [OF track_all_simps(1) pressed_point(1) tie nt sw, where rand = 0]
  note B = swipe_tie_vertical [OF half_sampled_simps(1) pressed_point(1) tie nt sw,
      where rand = "7 / 10"]
  from A have a: "\<exists>t. touches (onTouchEnd track_all 0 100 (dbl 60) (dbl (- 60)) pressed) =
        touches pressed @ [t] \<and> td_type t = Swipe \<and> ex_direction (td_extra t) = Some Up"
    using neg by (simp add: track_all_simps)
  from B have b: "touches (onTouchEnd half_sampled (7 / 10) 100 (dbl 60) (dbl (- 60)) pressed) =
      touches pressed"
    by (simp add: half_sampled_simps)
  from a b tie show ?thesis
    by (simp add: pressed_point track_all_simps half_sampled_simps)
qed

end
